theory Spec2Isabelle
  imports Main "HOL-Library.AList"
begin

section \<open>PyODCsvConverter: strings, paths and filter tables\<close>

text \<open>
  The development embeds \<^verbatim>\<open>CsvConverter.py\<close>. Python strings are modelled as
  \<^typ>\<open>string\<close>, each \<^typ>\<open>char\<close> read as a code point below 256 (Latin-1); on these
  code points \<^verbatim>\<open>str.lower\<close> is the character-wise map \<open>chr_lower\<close> below. The module
  \<^verbatim>\<open>os.path\<close> is taken to be \<^verbatim>\<open>posixpath\<close> (separator \<^verbatim>\<open>/\<close>, no alternative
  separator): \<open>splitext\<close> and \<open>os_path_join\<close> follow the standard library's
  \<^verbatim>\<open>genericpath._splitext\<close> and \<^verbatim>\<open>posixpath.join\<close> line by line.
\<close>

subsection \<open>Standard-library string functions used by the script\<close>

text \<open>\<^verbatim>\<open>str.rfind(c)\<close> for a one-character needle: the highest index, or -1.\<close>

fun rfind :: "string \<Rightarrow> char \<Rightarrow> int" where
  "rfind [] c = - 1"
| "rfind (x # xs) c =
     (let r = rfind xs c
      in if 0 \<le> r then r + 1 else if x = c then 0 else - 1)"

text \<open>\<^verbatim>\<open>str.lower\<close> on code points below 256: A-Z and the Latin-1 capitals
  (0xC0-0xDE except the multiplication sign 0xD7) move up by 32.\<close>

definition chr_lower :: "char \<Rightarrow> char" where
  "chr_lower c =
     (let n = (of_char c :: nat)
      in if (65 \<le> n \<and> n \<le> 90) \<or> (192 \<le> n \<and> n \<le> 222 \<and> n \<noteq> 215)
         then char_of (n + 32) else c)"

definition str_lower :: "string \<Rightarrow> string" where
  "str_lower s = map chr_lower s"

text \<open>\<^verbatim>\<open>str(n)\<close> for an integer: decimal digits, a minus sign when negative.\<close>

fun str_nat :: "nat \<Rightarrow> string" where
  "str_nat n =
     (if n < 10 then [char_of (48 + n)]
      else str_nat (n div 10) @ [char_of (48 + n mod 10)])"

declare str_nat.simps [simp del]

definition str_int :: "int \<Rightarrow> string" where
  "str_int i = (if i < 0 then CHR ''-'' # str_nat (nat (- i)) else str_nat (nat i))"

subsection \<open>\<^verbatim>\<open>os.path.splitext\<close> and \<^verbatim>\<open>os.path.join\<close> (posixpath)\<close>

text \<open>
  The loop of \<^verbatim>\<open>_splitext\<close> that skips leading dots of the file name:
  \<^verbatim>\<open>
    while filenameIndex < dotIndex:
        if p[filenameIndex:filenameIndex+1] != extsep:
            return p[:dotIndex], p[dotIndex:]
        filenameIndex += 1
  \<close>
  \<open>Some\<close> is the early return, \<open>None\<close> is falling out of the loop.
\<close>

function splitext_loop :: "string \<Rightarrow> int \<Rightarrow> int \<Rightarrow> (string \<times> string) option" where
  "splitext_loop p filenameIndex dotIndex =
     (if filenameIndex < dotIndex
      then (if take 1 (drop (nat filenameIndex) p) \<noteq> ''.''
            then Some (take (nat dotIndex) p, drop (nat dotIndex) p)
            else splitext_loop p (filenameIndex + 1) dotIndex)
      else None)"
  by pat_completeness auto
termination
  by (relation "measure (\<lambda>(p, filenameIndex, dotIndex). nat (dotIndex - filenameIndex))") auto

declare splitext_loop.simps [simp del]

definition splitext :: "string \<Rightarrow> string \<times> string" where
  "splitext p =
     (let sepIndex = rfind p CHR ''/'';
          dotIndex = rfind p CHR ''.''
      in if dotIndex > sepIndex
         then (case splitext_loop p (sepIndex + 1) dotIndex of
                 Some r \<Rightarrow> r
               | None \<Rightarrow> (p, []))
         else (p, []))"

definition os_path_join :: "string \<Rightarrow> string \<Rightarrow> string" where
  "os_path_join a b =
     (if take 1 b = ''/'' then b
      else if a = [] \<or> (a \<noteq> [] \<and> last a = CHR ''/'') then a @ b
      else a @ ''/'' @ b)"

subsection \<open>Dictionaries and the filter tables\<close>

text \<open>
  A \<^verbatim>\<open>dict\<close> is an association list in insertion order. A key of type
  \<^typ>\<open>string option\<close> is a Python value that is a \<^verbatim>\<open>str\<close> or \<^verbatim>\<open>None\<close>; the tables
  below have \<^verbatim>\<open>str\<close> keys only, so \<^verbatim>\<open>None\<close> is never a member.
\<close>

type_synonym 'v dict = "(string \<times> 'v) list"

definition dict_in :: "string option \<Rightarrow> 'v dict \<Rightarrow> bool" where
  "dict_in k d = (case k of None \<Rightarrow> False | Some s \<Rightarrow> s \<in> set (map fst d))"

definition dict_update :: "'v dict \<Rightarrow> 'v dict \<Rightarrow> 'v dict" where
  "dict_update d other = fold (\<lambda>(k, v). AList.update k v) other d"

definition IMPORT_FILTER_MAP :: "string dict dict" where
  "IMPORT_FILTER_MAP =
     [(''txt'', [(''FilterName'', ''Text (encoded)''),
                 (''FilterOptions'', ''utf8'')]),
      (''csv'', [(''FilterName'', ''Text - txt - csv (StarCalc)''),
                 (''FilterOptions'', ''44,34,0'')])]"

definition CSV_EXPORT_FILTER :: "string dict" where
  "CSV_EXPORT_FILTER =
     [(''FilterName'', ''Text - txt - csv (StarCalc)''),
      (''FilterOptions'', ''44,34,0'')]"

subsection \<open>Utility functions of the script\<close>

text \<open>
  \<^verbatim>\<open>get_file_ext\<close>: \<open>None\<close> is Python's \<^verbatim>\<open>None\<close>, the implicit return when the test
  \<^verbatim>\<open>ext is not None\<close> fails. \<^verbatim>\<open>splitext\<close> always yields a \<^verbatim>\<open>str\<close>, written
  \<open>Some\<close> here so that the test is a branch of the model.
\<close>

definition get_file_ext :: "string \<Rightarrow> string option" where
  "get_file_ext path =
     (let ext = Some (snd (splitext path))
      in case ext of
           Some e \<Rightarrow> Some (str_lower (drop 1 e))
         | None \<Rightarrow> None)"

record PropertyValue =
  Name :: string
  Value :: string

definition dict_to_uno_properties :: "string dict \<Rightarrow> PropertyValue list" where
  "dict_to_uno_properties d =
     map (\<lambda>key. \<lparr>Name = key, Value = the (map_of d key)\<rparr>) (map fst d)"

text \<open>
  \<^verbatim>\<open>path_to_url\<close> calls \<^verbatim>\<open>os.path.abspath\<close> (which reads the working directory) and
  \<^verbatim>\<open>uno.systemPathToFileUrl\<close> (the UNO runtime); both are parameters.
\<close>

record local_env =
  abspath :: "string \<Rightarrow> string"
  systemPathToFileUrl :: "string \<Rightarrow> string"

definition path_to_url :: "local_env \<Rightarrow> string \<Rightarrow> string" where
  "path_to_url env path = systemPathToFileUrl env (abspath env path)"

section \<open>The remote office service and the conversion\<close>

subsection \<open>Exceptions, remote objects and observable events\<close>

text \<open>
  Every call that crosses the UNO bridge may raise. \<open>UnoException\<close> stands for any
  exception class the script neither raises nor catches by name (RuntimeException,
  DisposedException, CloseVetoException, ...), tagged with its class name. The last
  constructor is the script's own \<^verbatim>\<open>LibreOfficeConnectionException\<close> with its
  fields \<^verbatim>\<open>host\<close>, \<^verbatim>\<open>port\<close> and \<^verbatim>\<open>message\<close>.
\<close>

datatype exn =
    AttributeError
  | NoConnectException
  | ErrorCodeIOException int
  | UnoException string
  | LibreOfficeConnectionException string int string

datatype uno_context = Context nat
datatype desktop = Desktop nat
datatype document = Document nat
datatype sheets = Sheets nat
datatype sheet = Sheet nat
datatype controller = Controller nat

text \<open>
  One event per effect the script performs, in program order, with the value the call
  returned or the exception it raised. \<^verbatim>\<open>loadComponentFromURL\<close> may return a null
  reference (Python \<^verbatim>\<open>None\<close>), hence \<^typ>\<open>document option\<close>.
\<close>

datatype event =
    Resolve string "exn + uno_context"
  | CreateDesktop uno_context "exn + desktop"
  | LoadComponentFromURL desktop string string int "PropertyValue list" "exn + document option"
  | Refresh document "exn + unit"
  | GetSheets document "exn + sheets"
  | GetCount sheets "exn + int"
  | Sleep int
  | GetByIndex sheets int "exn + sheet"
  | GetCurrentController document "exn + controller"
  | SetActiveSheet controller sheet "exn + unit"
  | GetName sheet "exn + string"
  | StoreToURL document string "PropertyValue list" "exn + unit"
  | Close document bool "exn + unit"

text \<open>
  The remote service is an arbitrary deterministic machine over a state \<^typ>\<open>'s\<close>: each
  operation maps the state to an outcome and a new state. The script's behaviour is proved
  for every such machine.
\<close>

record 's office =
  resolve :: "string \<Rightarrow> 's \<Rightarrow> (exn + uno_context) \<times> 's"
  createDesktop :: "uno_context \<Rightarrow> 's \<Rightarrow> (exn + desktop) \<times> 's"
  loadComponentFromURL ::
    "desktop \<Rightarrow> string \<Rightarrow> string \<Rightarrow> int \<Rightarrow> PropertyValue list \<Rightarrow> 's \<Rightarrow> (exn + document option) \<times> 's"
  refresh :: "document \<Rightarrow> 's \<Rightarrow> (exn + unit) \<times> 's"
  get_Sheets :: "document \<Rightarrow> 's \<Rightarrow> (exn + sheets) \<times> 's"
  get_Count :: "sheets \<Rightarrow> 's \<Rightarrow> (exn + int) \<times> 's"
  getByIndex :: "sheets \<Rightarrow> int \<Rightarrow> 's \<Rightarrow> (exn + sheet) \<times> 's"
  get_CurrentController :: "document \<Rightarrow> 's \<Rightarrow> (exn + controller) \<times> 's"
  setActiveSheet :: "controller \<Rightarrow> sheet \<Rightarrow> 's \<Rightarrow> (exn + unit) \<times> 's"
  get_Name :: "sheet \<Rightarrow> 's \<Rightarrow> (exn + string) \<times> 's"
  storeToURL :: "document \<Rightarrow> string \<Rightarrow> PropertyValue list \<Rightarrow> 's \<Rightarrow> (exn + unit) \<times> 's"
  close :: "document \<Rightarrow> bool \<Rightarrow> 's \<Rightarrow> (exn + unit) \<times> 's"

subsection \<open>Sequencing, exceptions and \<^verbatim>\<open>try\<close> blocks\<close>

text \<open>
  A statement maps the service state to its outcome (\<open>Inl\<close> an exception in flight,
  \<open>Inr\<close> a value), the new state and the events it performed.
\<close>

type_synonym ('s, 'a) io = "'s \<Rightarrow> (exn + 'a) \<times> 's \<times> event list"

definition return :: "'a \<Rightarrow> ('s, 'a) io" where
  "return a s = (Inr a, s, [])"

definition raise :: "exn \<Rightarrow> ('s, 'a) io" where
  "raise e s = (Inl e, s, [])"

definition bind :: "('s, 'a) io \<Rightarrow> ('a \<Rightarrow> ('s, 'b) io) \<Rightarrow> ('s, 'b) io" where
  "bind m f s =
     (case m s of
        (Inl e, s', evs) \<Rightarrow> (Inl e, s', evs)
      | (Inr a, s', evs) \<Rightarrow>
          (case f a s' of (r, s'', evs') \<Rightarrow> (r, s'', evs @ evs')))"

text \<open>A remote call: run the service's operation and record the event with its outcome.\<close>

definition call :: "((exn + 'a) \<Rightarrow> event) \<Rightarrow> ('s \<Rightarrow> (exn + 'a) \<times> 's) \<Rightarrow> ('s, 'a) io" where
  "call ev f s = (case f s of (r, s') \<Rightarrow> (r, s', [ev r]))"

text \<open>\<^verbatim>\<open>time.sleep(n)\<close>: a local effect that always returns.\<close>

definition sleep :: "int \<Rightarrow> ('s, unit) io" where
  "sleep n s = (Inr (), s, [Sleep n])"

text \<open>\<^verbatim>\<open>try: body except E: handler\<close> for the exceptions selected by \<open>catches\<close>.\<close>

definition try_except :: "('s, 'a) io \<Rightarrow> (exn \<Rightarrow> bool) \<Rightarrow> (exn \<Rightarrow> ('s, 'a) io) \<Rightarrow> ('s, 'a) io" where
  "try_except body catches handler s =
     (case body s of
        (Inl e, s', evs) \<Rightarrow>
          (if catches e
           then (case handler e s' of (r, s'', evs') \<Rightarrow> (r, s'', evs @ evs'))
           else (Inl e, s', evs))
      | (Inr a, s', evs) \<Rightarrow> (Inr a, s', evs))"

text \<open>
  \<^verbatim>\<open>try: body finally: fin\<close>: the finaliser runs on every exit of the body; an
  exception raised by the finaliser replaces the body's outcome, otherwise the body's
  outcome (value or exception) stands.
\<close>

definition try_finally :: "('s, 'a) io \<Rightarrow> ('s, unit) io \<Rightarrow> ('s, 'a) io" where
  "try_finally body fin s =
     (case body s of (r, s', evs) \<Rightarrow>
        (case fin s' of
           (Inl e, s'', evs') \<Rightarrow> (Inl e, s'', evs @ evs')
         | (Inr u, s'', evs') \<Rightarrow> (r, s'', evs @ evs')))"

text \<open>\<^verbatim>\<open>for i in xs: body\<close>, and \<^verbatim>\<open>range(n)\<close> (empty when \<open>n \<le> 0\<close>).\<close>

fun for_loop :: "'i list \<Rightarrow> ('i \<Rightarrow> ('s, unit) io) \<Rightarrow> ('s, unit) io" where
  "for_loop [] body s = (Inr (), s, [])"
| "for_loop (i # is) body s =
     (case body i s of
        (Inl e, s', evs) \<Rightarrow> (Inl e, s', evs)
      | (Inr u, s', evs) \<Rightarrow>
          (case for_loop is body s' of (r, s'', evs') \<Rightarrow> (r, s'', evs @ evs')))"

definition range_py :: "int \<Rightarrow> int list" where
  "range_py n = map int [0..<nat n]"

subsection \<open>Operations on the loaded document\<close>

text \<open>
  \<^verbatim>\<open>document\<close> may be \<^verbatim>\<open>None\<close>; any attribute access on \<^verbatim>\<open>None\<close> raises
  \<^verbatim>\<open>AttributeError\<close> locally, with no remote call. A document that does not support an
  operation makes the service answer \<open>Inl AttributeError\<close>.
\<close>

definition on_document :: "document option \<Rightarrow> (document \<Rightarrow> ('s, 'a) io) \<Rightarrow> ('s, 'a) io" where
  "on_document document f =
     (case document of None \<Rightarrow> raise AttributeError | Some d \<Rightarrow> f d)"

definition document_refresh :: "'s office \<Rightarrow> document option \<Rightarrow> ('s, unit) io" where
  "document_refresh off document =
     on_document document (\<lambda>d. call (Refresh d) (refresh off d))"

definition document_Sheets :: "'s office \<Rightarrow> document option \<Rightarrow> ('s, sheets) io" where
  "document_Sheets off document =
     on_document document (\<lambda>d. call (GetSheets d) (get_Sheets off d))"

definition document_CurrentController :: "'s office \<Rightarrow> document option \<Rightarrow> ('s, controller) io" where
  "document_CurrentController off document =
     on_document document (\<lambda>d. call (GetCurrentController d) (get_CurrentController off d))"

definition document_storeToURL ::
  "'s office \<Rightarrow> document option \<Rightarrow> string \<Rightarrow> PropertyValue list \<Rightarrow> ('s, unit) io" where
  "document_storeToURL off document url props =
     on_document document (\<lambda>d. call (StoreToURL d url props) (storeToURL off d url props))"

definition document_close :: "'s office \<Rightarrow> document option \<Rightarrow> bool \<Rightarrow> ('s, unit) io" where
  "document_close off document deliver =
     on_document document (\<lambda>d. call (Close d deliver) (close off d deliver))"

subsection \<open>\<^verbatim>\<open>CsvConverter\<close>\<close>

record CsvConverter =
  desktop :: desktop

text \<open>
  \<^verbatim>\<open>CsvConverter.__init__\<close>. The local component context and the URL resolver are
  created in-process; the two bridge calls are \<^verbatim>\<open>resolver.resolve\<close> and the creation of
  the Desktop service. Only \<^verbatim>\<open>NoConnectException\<close> is translated.
\<close>

definition connection_message :: "string \<Rightarrow> int \<Rightarrow> string" where
  "connection_message host port =
     ''Failed to connect to LibreOffice at host '' @ [CHR 0x27] @ host @ [CHR 0x27]
       @ '' and port '' @ str_int port"

definition connection_url :: "string \<Rightarrow> int \<Rightarrow> string" where
  "connection_url host port =
     ''uno:socket,host='' @ host @ '',port='' @ str_int port
       @ '';urp;StarOffice.ComponentContext''"

definition CsvConverter_init :: "'s office \<Rightarrow> string \<Rightarrow> int \<Rightarrow> ('s, CsvConverter) io" where
  "CsvConverter_init off host port =
     (let url = connection_url host port
      in bind (try_except (call (Resolve url) (resolve off url))
                 (\<lambda>e. e = NoConnectException)
                 (\<lambda>e. raise (LibreOfficeConnectionException host port
                                (connection_message host port))))
           (\<lambda>ctx.
              bind (call (CreateDesktop ctx) (createDesktop off ctx))
                (\<lambda>d. return \<lparr>desktop = d\<rparr>)))"

text \<open>The body of the \<^verbatim>\<open>for\<close> loop of \<^verbatim>\<open>convert\<close> (one sheet).\<close>

definition export_sheet ::
  "'s office \<Rightarrow> local_env \<Rightarrow> document option \<Rightarrow> sheets \<Rightarrow> string \<Rightarrow> string \<Rightarrow>
   string dict \<Rightarrow> bool \<Rightarrow> bool \<Rightarrow> int \<Rightarrow> ('s, unit) io" where
  "export_sheet off env document doc_sheets output_dir output_ext save_properties
       slow ignore_sheet_names sheet_no =
     bind (if slow then sleep 1 else return ())
       (\<lambda>_. bind (call (GetByIndex doc_sheets sheet_no) (getByIndex off doc_sheets sheet_no))
       (\<lambda>sheet. bind (document_CurrentController off document)
       (\<lambda>ctrl. bind (call (SetActiveSheet ctrl sheet) (setActiveSheet off ctrl sheet))
       (\<lambda>_. bind (if ignore_sheet_names
                   then return (''sheet-'' @ str_int (sheet_no + 1))
                   else call (GetName sheet) (get_Name off sheet))
       (\<lambda>output_name_base.
          let output_url =
                path_to_url env (os_path_join output_dir (output_name_base @ ''.'' @ output_ext))
          in document_storeToURL off document output_url
               (dict_to_uno_properties save_properties))))))"

text \<open>The body of the \<^verbatim>\<open>try\<close> block of \<^verbatim>\<open>convert\<close> (lines 157-177).\<close>

definition export_all ::
  "'s office \<Rightarrow> local_env \<Rightarrow> document option \<Rightarrow> string \<Rightarrow> string \<Rightarrow> bool \<Rightarrow> bool \<Rightarrow>
   ('s, unit) io" where
  "export_all off env document output_dir output_ext slow ignore_sheet_names =
     (let save_properties = CSV_EXPORT_FILTER
      in bind (document_Sheets off document)
           (\<lambda>doc_sheets. bind (call (GetCount doc_sheets) (get_Count off doc_sheets))
           (\<lambda>count.
              for_loop (range_py count)
                (export_sheet off env document doc_sheets output_dir output_ext
                   save_properties slow ignore_sheet_names))))"

text \<open>The \<^verbatim>\<open>try ... finally\<close> statement of \<^verbatim>\<open>convert\<close> (lines 155-181).\<close>

definition export_then_close ::
  "'s office \<Rightarrow> local_env \<Rightarrow> document option \<Rightarrow> string \<Rightarrow> string \<Rightarrow> bool \<Rightarrow> bool \<Rightarrow> bool \<Rightarrow>
   ('s, unit) io" where
  "export_then_close off env document output_dir output_ext slow keep_open ignore_sheet_names =
     try_finally
       (export_all off env document output_dir output_ext slow ignore_sheet_names)
       (if \<not> keep_open then document_close off document True else return ())"

text \<open>The load properties computed at lines 139-144.\<close>

definition load_properties_for :: "string \<Rightarrow> string dict" where
  "load_properties_for input_file =
     (let load_properties = [];
          input_ext = get_file_ext input_file
      in if dict_in input_ext IMPORT_FILTER_MAP
         then dict_update load_properties (the (map_of IMPORT_FILTER_MAP (the input_ext)))
         else load_properties)"

definition convert ::
  "'s office \<Rightarrow> local_env \<Rightarrow> CsvConverter \<Rightarrow> string \<Rightarrow> string \<Rightarrow> bool \<Rightarrow> bool \<Rightarrow> bool \<Rightarrow>
   ('s, unit) io" where
  "convert off env self input_file output_dir slow keep_open ignore_sheet_names =
     (let output_ext = ''csv'';
          load_properties = load_properties_for input_file;
          url = path_to_url env input_file;
          props = dict_to_uno_properties load_properties
      in bind (call (LoadComponentFromURL (desktop self) url ''_blank'' 0 props)
                 (loadComponentFromURL off (desktop self) url ''_blank'' 0 props))
           (\<lambda>document.
              bind (try_except (document_refresh off document)
                      (\<lambda>e. e = AttributeError) (\<lambda>e. return ()))
                (\<lambda>_. export_then_close off env document output_dir output_ext
                        slow keep_open ignore_sheet_names)))"

text \<open>The body of the \<^verbatim>\<open>try\<close> statement of \<^verbatim>\<open>main\<close> (lines 226-232).\<close>

definition main_try ::
  "'s office \<Rightarrow> local_env \<Rightarrow> string \<Rightarrow> int \<Rightarrow> string \<Rightarrow> string \<Rightarrow> bool \<Rightarrow> bool \<Rightarrow> bool \<Rightarrow>
   ('s, unit) io" where
  "main_try off env host port input_file output_dir slow keep_open ignore_sheet_names =
     bind (CsvConverter_init off host port)
       (\<lambda>converter. convert off env converter input_file output_dir
                       slow keep_open ignore_sheet_names)"

section \<open>Observations on a run\<close>

text \<open>
  A run of a statement from a state yields an outcome, a final state and the events
  performed. The functions below read a list of events.
\<close>

definition outcome :: "(exn + 'a) \<times> 's \<times> event list \<Rightarrow> exn + 'a" where
  "outcome x = fst x"

definition events :: "(exn + 'a) \<times> 's \<times> event list \<Rightarrow> event list" where
  "events x = snd (snd x)"

text \<open>The document and the ownership flag of every \<^verbatim>\<open>close\<close> call.\<close>

fun close_call :: "event \<Rightarrow> (document \<times> bool) list" where
  "close_call (Close d b r) = [(d, b)]"
| "close_call _ = []"

definition close_calls :: "event list \<Rightarrow> (document \<times> bool) list" where
  "close_calls evs = concat (map close_call evs)"

text \<open>The duration of every sleep.\<close>

fun pause :: "event \<Rightarrow> int list" where
  "pause (Sleep n) = [n]"
| "pause _ = []"

definition pauses :: "event list \<Rightarrow> int list" where
  "pauses evs = concat (map pause evs)"

text \<open>The arguments of every \<^verbatim>\<open>loadComponentFromURL\<close> call.\<close>

fun load_call :: "event \<Rightarrow> (desktop \<times> string \<times> string \<times> int \<times> PropertyValue list) list" where
  "load_call (LoadComponentFromURL dk url target flags props r) = [(dk, url, target, flags, props)]"
| "load_call _ = []"

definition load_calls :: "event list \<Rightarrow> (desktop \<times> string \<times> string \<times> int \<times> PropertyValue list) list" where
  "load_calls evs = concat (map load_call evs)"

text \<open>The sheet counts the service reported.\<close>

fun count_read :: "event \<Rightarrow> int list" where
  "count_read (GetCount ss (Inr n)) = [n]"
| "count_read _ = []"

definition counts :: "event list \<Rightarrow> int list" where
  "counts evs = concat (map count_read evs)"

text \<open>The indices passed to \<^verbatim>\<open>getByIndex\<close>, whatever the outcome.\<close>

fun visit :: "event \<Rightarrow> int list" where
  "visit (GetByIndex ss i r) = [i]"
| "visit _ = []"

definition visited :: "event list \<Rightarrow> int list" where
  "visited evs = concat (map visit evs)"

text \<open>The index and sheet of every \<^verbatim>\<open>getByIndex\<close> call that returned.\<close>

fun fetch :: "event \<Rightarrow> (int \<times> sheet) list" where
  "fetch (GetByIndex ss i (Inr sh)) = [(i, sh)]"
| "fetch _ = []"

definition fetched :: "event list \<Rightarrow> (int \<times> sheet) list" where
  "fetched evs = concat (map fetch evs)"

text \<open>The sheet and name of every read of \<^verbatim>\<open>sheet.Name\<close> that returned.\<close>

fun name_read :: "event \<Rightarrow> (sheet \<times> string) list" where
  "name_read (GetName sh (Inr nm)) = [(sh, nm)]"
| "name_read _ = []"

definition named :: "event list \<Rightarrow> (sheet \<times> string) list" where
  "named evs = concat (map name_read evs)"

text \<open>
  Every \<^verbatim>\<open>storeToURL\<close> call with its URL, properties and outcome, and the URLs of
  those that returned: the files the service was made to write.
\<close>

fun store_call :: "event \<Rightarrow> (string \<times> PropertyValue list \<times> (exn + unit)) list" where
  "store_call (StoreToURL d url props r) = [(url, props, r)]"
| "store_call _ = []"

definition store_calls :: "event list \<Rightarrow> (string \<times> PropertyValue list \<times> (exn + unit)) list" where
  "store_calls evs = concat (map store_call evs)"

fun store_ok :: "event \<Rightarrow> string list" where
  "store_ok (StoreToURL d url props (Inr u)) = [url]"
| "store_ok _ = []"

definition stored :: "event list \<Rightarrow> string list" where
  "stored evs = concat (map store_ok evs)"

text \<open>
  The successful sheet activations and store calls of a run, in order: what was made the
  active sheet, and what was then written.
\<close>

datatype step = Activated sheet | Stored string




text \<open>The \<^verbatim>\<open>close\<close> calls that raised.\<close>

fun close_raised :: "event \<Rightarrow> exn list" where
  "close_raised (Close d b (Inl e)) = [e]"
| "close_raised _ = []"

definition close_failures :: "event list \<Rightarrow> exn list" where
  "close_failures evs = concat (map close_raised evs)"

text \<open>
  Pacing: \<open>paced b evs\<close> holds when every \<^verbatim>\<open>getByIndex\<close> call is immediately preceded
  by a one-second sleep and every sleep is immediately followed by a \<^verbatim>\<open>getByIndex\<close>
  call; \<open>b\<close> tells whether the event just before \<open>evs\<close> was such a sleep.
\<close>

fun paced :: "bool \<Rightarrow> event list \<Rightarrow> bool" where
  "paced b [] = (\<not> b)"
| "paced b (Sleep n # evs) = (\<not> b \<and> n = 1 \<and> paced True evs)"
| "paced b (GetByIndex ss i r # evs) = (b \<and> paced False evs)"
| "paced b (ev # evs) = (\<not> b \<and> paced False evs)"

text \<open>The output path of a sheet, from its base name.\<close>

definition output_url :: "local_env \<Rightarrow> string \<Rightarrow> string \<Rightarrow> string" where
  "output_url env output_dir base = path_to_url env (os_path_join output_dir (base @ ''.csv''))"

text \<open>\<^verbatim>\<open>posixpath.basename\<close>: the final component of a path.\<close>

definition basename :: "string \<Rightarrow> string" where
  "basename p = drop (nat (rfind p CHR ''/'' + 1)) p"

text \<open>Every event of every run of a statement satisfies \<open>P\<close>.\<close>

definition emits :: "(event \<Rightarrow> bool) \<Rightarrow> ('s, 'a) io \<Rightarrow> bool" where
  "emits P m = (\<forall>s. list_all P (events (m s)))"

text \<open>Every run of a statement is paced.\<close>

definition well_paced :: "('s, 'a) io \<Rightarrow> bool" where
  "well_paced m = (\<forall>s. paced False (events (m s)))"

subsection \<open>A scripted service for concrete runs\<close>

text \<open>
  A service holding one spreadsheet whose sheets have the given names. The state counts
  the \<^verbatim>\<open>storeToURL\<close> calls received; the outcomes of \<^verbatim>\<open>resolve\<close>, \<^verbatim>\<open>refresh\<close>, of
  the \<open>k\<close>-th store and of \<^verbatim>\<open>close\<close> are scripted.
\<close>

definition scripted_office ::
  "(exn + uno_context) \<Rightarrow> string list \<Rightarrow> (exn + unit) \<Rightarrow> (nat \<Rightarrow> exn + unit) \<Rightarrow> (exn + unit) \<Rightarrow>
   nat office" where
  "scripted_office resolved names refreshed store_result closed =
     \<lparr> resolve = (\<lambda>url s. (resolved, s)),
       createDesktop = (\<lambda>c s. (Inr (Desktop 0), s)),
       loadComponentFromURL = (\<lambda>dk url target flags props s. (Inr (Some (Document 0)), s)),
       refresh = (\<lambda>d s. (refreshed, s)),
       get_Sheets = (\<lambda>d s. (Inr (Sheets 0), s)),
       get_Count = (\<lambda>ss s. (Inr (int (length names)), s)),
       getByIndex = (\<lambda>ss i s.
          (if 0 \<le> i \<and> i < int (length names) then Inr (Sheet (nat i))
           else Inl (UnoException ''IndexOutOfBoundsException''), s)),
       get_CurrentController = (\<lambda>d s. (Inr (Controller 0), s)),
       setActiveSheet = (\<lambda>c sh s. (Inr (), s)),
       get_Name = (\<lambda>sh s.
          (case sh of Sheet i \<Rightarrow>
             if i < length names then Inr (names ! i)
             else Inl (UnoException ''DisposedException''), s)),
       storeToURL = (\<lambda>d url props s. (store_result s, Suc s)),
       close = (\<lambda>d b s. (closed, s)) \<rparr>"

definition healthy_office :: "string list \<Rightarrow> nat office" where
  "healthy_office names =
     scripted_office (Inr (Context 0)) names (Inr ()) (\<lambda>k. Inr ()) (Inr ())"

text \<open>Three sheets; the second \<^verbatim>\<open>storeToURL\<close> call raises an I/O error.\<close>

definition failing_office :: "nat office" where
  "failing_office =
     scripted_office (Inr (Context 0)) [''Alpha'', ''Beta'', ''Gamma''] (Inr ())
       (\<lambda>k. if k = 1 then Inl (ErrorCodeIOException 283) else Inr ()) (Inr ())"

text \<open>The same, and \<^verbatim>\<open>close\<close> raises as well.\<close>

definition vetoing_office :: "nat office" where
  "vetoing_office =
     scripted_office (Inr (Context 0)) [''Alpha'', ''Beta'', ''Gamma''] (Inr ())
       (\<lambda>k. if k = 1 then Inl (ErrorCodeIOException 283) else Inr ())
       (Inl (UnoException ''CloseVetoException''))"

definition plain_env :: local_env where
  "plain_env = \<lparr> abspath = (\<lambda>p. if take 1 p = ''/'' then p else ''/work/'' @ p),
                 systemPathToFileUrl = (\<lambda>p. ''file://'' @ p) \<rparr>"

section \<open>Reasoning about runs\<close>

lemma events_triple [simp]: "events (r, s, evs) = evs"
  by (simp add: events_def)

lemma outcome_triple [simp]: "outcome (r, s, evs) = r"
  by (simp add: outcome_def)

lemma emitsD: "emits P m \<Longrightarrow> m s = (r, s', evs) \<Longrightarrow> list_all P evs"
  unfolding emits_def by (metis events_triple)

lemma emits_return: "emits P (return a)"
  by (simp add: emits_def return_def)

lemma emits_raise: "emits P (raise e)"
  by (simp add: emits_def raise_def)

lemma emits_sleep: "P (Sleep n) \<Longrightarrow> emits P (sleep n)"
  by (simp add: emits_def sleep_def)

lemma emits_call: "(\<And>r. P (ev r)) \<Longrightarrow> emits P (call ev f)"
  by (simp add: emits_def call_def split: prod.splits)

lemma emits_bind:
  assumes "emits P m" and "\<And>a. emits P (f a)"
  shows "emits P (bind m f)"
  unfolding emits_def
proof
  fix s
  show "list_all P (events (bind m f s))"
    using emitsD [OF assms(1)] emitsD [OF assms(2)]
    by (auto simp: bind_def split: prod.splits sum.splits)
qed

lemma emits_try_except:
  assumes "emits P body" and "\<And>e. emits P (handler e)"
  shows "emits P (try_except body catches handler)"
  unfolding emits_def
proof
  fix s
  show "list_all P (events (try_except body catches handler s))"
    using emitsD [OF assms(1)] emitsD [OF assms(2)]
    by (auto simp: try_except_def split: prod.splits sum.splits)
qed

lemma emits_try_finally:
  assumes "emits P body" and "emits P fin"
  shows "emits P (try_finally body fin)"
  unfolding emits_def
proof
  fix s
  show "list_all P (events (try_finally body fin s))"
    using emitsD [OF assms(1)] emitsD [OF assms(2)]
    by (auto simp: try_finally_def split: prod.splits sum.splits)
qed

lemma emits_for_loop:
  assumes "\<And>i. emits P (body i)"
  shows "emits P (for_loop xs body)"
  unfolding emits_def
proof
  fix s
  show "list_all P (events (for_loop xs body s))"
  proof (induction xs arbitrary: s)
    case Nil
    show ?case by simp
  next
    case (Cons i xs)
    obtain r s1 ev1 where b: "body i s = (r, s1, ev1)"
      by (cases "body i s") auto
    have p1: "list_all P ev1" using emitsD [OF assms b] .
    obtain r2 s2 ev2 where l: "for_loop xs body s1 = (r2, s2, ev2)"
      by (cases "for_loop xs body s1") auto
    have p2: "list_all P ev2" using Cons.IH [of s1] l by simp
    show ?case using b l p1 p2 by (cases r) simp_all
  qed
qed

lemma emits_on_document:
  "(\<And>d. emits P (f d)) \<Longrightarrow> emits P (on_document document f)"
  by (cases document) (simp_all add: on_document_def emits_raise)

lemma emits_if: "(c \<Longrightarrow> emits P m) \<Longrightarrow> (\<not> c \<Longrightarrow> emits P n) \<Longrightarrow> emits P (if c then m else n)"
  by simp

lemma emits_export_sheet:
  assumes "slow \<Longrightarrow> P (Sleep 1)"
    and "\<And>r. P (GetByIndex ss i r)"
    and "\<And>d r. P (GetCurrentController d r)"
    and "\<And>c sh r. P (SetActiveSheet c sh r)"
    and "\<And>sh r. P (GetName sh r)"
    and "\<And>d u r. P (StoreToURL d u (dict_to_uno_properties props) r)"
  shows "emits P (export_sheet off env document ss out ext props slow ign i)"
  unfolding export_sheet_def document_CurrentController_def document_storeToURL_def Let_def
  by (intro emits_bind emits_if emits_sleep emits_return emits_call emits_on_document assms)

lemma emits_export_all:
  assumes "slow \<Longrightarrow> P (Sleep 1)"
    and "\<And>d r. P (GetSheets d r)"
    and "\<And>ss r. P (GetCount ss r)"
    and "\<And>ss i r. P (GetByIndex ss i r)"
    and "\<And>d r. P (GetCurrentController d r)"
    and "\<And>c sh r. P (SetActiveSheet c sh r)"
    and "\<And>sh r. P (GetName sh r)"
    and "\<And>d u r. P (StoreToURL d u (dict_to_uno_properties CSV_EXPORT_FILTER) r)"
  shows "emits P (export_all off env document out ext slow ign)"
  unfolding export_all_def document_Sheets_def Let_def
  by (intro emits_bind emits_call emits_on_document emits_for_loop emits_export_sheet assms)

lemma emits_document_close:
  "(\<And>d r. P (Close d b r)) \<Longrightarrow> emits P (document_close off document b)"
  unfolding document_close_def
  by (intro emits_on_document emits_call)

lemma emits_document_refresh:
  "(\<And>d r. P (Refresh d r)) \<Longrightarrow> emits P (document_refresh off document)"
  unfolding document_refresh_def
  by (intro emits_on_document emits_call)

subsection \<open>Paths, extensions and load properties\<close>

lemma rfind_ge: "- 1 \<le> rfind p c"
  by (induction p) (auto simp: Let_def)

lemma rfind_lt: "rfind p c < int (length p)"
  by (induction p) (auto simp: Let_def)

lemma rfind_nth: "0 \<le> rfind p c \<Longrightarrow> p ! nat (rfind p c) = c"
proof (induction p)
  case Nil
  then show ?case by simp
next
  case (Cons x xs)
  show ?case
  proof (cases "0 \<le> rfind xs c")
    case True
    then have "nat (rfind xs c + 1) = Suc (nat (rfind xs c))" by simp
    with True Cons.IH show ?thesis by (simp add: Let_def)
  next
    case False
    with Cons.prems show ?thesis by (auto simp: Let_def split: if_splits)
  qed
qed

lemma no_dot_in_basename:
  assumes "CHR ''.'' \<notin> set (basename p)"
  shows "\<not> rfind p CHR ''.'' > rfind p CHR ''/''"
proof
  assume gt: "rfind p CHR ''.'' > rfind p CHR ''/''"
  let ?d = "rfind p CHR ''.''" and ?s = "rfind p CHR ''/''"
  from gt rfind_ge [of p "CHR ''/''"] have d0: "0 \<le> ?d" by linarith
  have dlt: "nat ?d < length p" using rfind_lt [of p "CHR ''.''"] d0 by linarith
  have le: "nat (?s + 1) \<le> nat ?d" using gt by linarith
  have "drop (nat (?s + 1)) p ! (nat ?d - nat (?s + 1)) = p ! nat ?d"
    using le dlt by simp
  moreover have "nat ?d - nat (?s + 1) < length (drop (nat (?s + 1)) p)"
    using le dlt by simp
  ultimately have "p ! nat ?d \<in> set (basename p)"
    unfolding basename_def by (metis nth_mem)
  with rfind_nth [OF d0] assms show False by simp
qed

lemma get_file_ext_no_dot:
  "CHR ''.'' \<notin> set (basename p) \<Longrightarrow> get_file_ext p = Some []"
  using no_dot_in_basename [of p]
  by (simp add: get_file_ext_def splitext_def Let_def str_lower_def)

lemma rfind_neg_iff: "rfind p c < 0 \<longleftrightarrow> c \<notin> set p"
  by (induction p) (auto simp: Let_def)

lemma rfind_append:
  "rfind (xs @ ys) c = (if c \<in> set ys then int (length xs) + rfind ys c else rfind xs c)"
proof (induction xs)
  case Nil
  then show ?case using rfind_neg_iff [of ys c] rfind_ge [of ys c] by auto
next
  case (Cons x xs)
  show ?case
  proof (cases "c \<in> set ys")
    case True
    then have "0 \<le> rfind ys c" using rfind_neg_iff [of ys c] by auto
    with Cons True show ?thesis by (simp add: Let_def)
  next
    case False
    with Cons show ?thesis by (simp add: Let_def)
  qed
qed

lemma take1_drop: "n < length xs \<Longrightarrow> take 1 (drop n xs) = [xs ! n]"
proof -
  assume "n < length xs"
  then have "drop n xs = xs ! n # drop (Suc n) xs"
    by (simp add: Cons_nth_drop_Suc)
  then show ?thesis by simp
qed

lemma splitext_loop_found:
  assumes "f \<le> j" "j < d" "0 \<le> f" "take 1 (drop (nat j) p) \<noteq> ''.''"
  shows "splitext_loop p f d = Some (take (nat d) p, drop (nat d) p)"
  using assms
proof (induction p f d rule: splitext_loop.induct)
  case (1 p f d)
  show ?case
  proof (cases "take 1 (drop (nat f) p) \<noteq> ''.''")
    case True
    with 1 show ?thesis by (simp add: splitext_loop.simps [of p f d])
  next
    case False
    with "1.prems" have "f \<noteq> j" by auto
    with "1.prems" have "f + 1 \<le> j" by simp
    with 1 False show ?thesis by (simp add: splitext_loop.simps [of p f d])
  qed
qed

lemma get_file_ext_suffix:
  assumes "CHR ''.'' \<notin> set ext" "CHR ''/'' \<notin> set ext"
    and "\<exists>c \<in> set (basename stem). c \<noteq> CHR ''.''"
  shows "get_file_ext (stem @ ''.'' @ ext) = Some (str_lower ext)"
proof -
  let ?p = "stem @ CHR ''.'' # ext"
  have dot: "rfind ?p CHR ''.'' = int (length stem)"
    using assms(1) rfind_neg_iff [of ext "CHR ''.''"]
    by (simp add: rfind_append [of stem] Let_def)
  have sep: "rfind ?p CHR ''/'' = rfind stem CHR ''/''"
    using assms(2) by (simp add: rfind_append [of stem])
  let ?s = "rfind stem CHR ''/''"
  have slt: "?s < int (length stem)" by (rule rfind_lt)
  have sge: "0 \<le> ?s + 1" using rfind_ge [of stem "CHR ''/''"] by simp
  from assms(3) obtain c where c: "c \<in> set (drop (nat (?s + 1)) stem)" "c \<noteq> CHR ''.''"
    by (auto simp: basename_def)
  then obtain i where i: "i < length (drop (nat (?s + 1)) stem)" "drop (nat (?s + 1)) stem ! i = c"
    by (auto simp: in_set_conv_nth)
  let ?j = "?s + 1 + int i"
  have jlt: "nat ?j < length stem" using i(1) sge by auto
  have "stem ! nat ?j = c"
    using i sge by (simp add: nat_add_distrib)
  then have "?p ! nat ?j = c" using jlt by (simp add: nth_append)
  moreover have "nat ?j < length ?p" using jlt by simp
  ultimately have "take 1 (drop (nat ?j) ?p) = [c]"
    using take1_drop [of "nat ?j" ?p] by simp
  with c(2) have ne: "take 1 (drop (nat ?j) ?p) \<noteq> ''.''" by simp
  have "splitext_loop ?p (?s + 1) (int (length stem))
          = Some (take (nat (int (length stem))) ?p, drop (nat (int (length stem))) ?p)"
    using jlt sge by (intro splitext_loop_found [where j = ?j] ne) auto
  then have "splitext ?p = (stem, CHR ''.'' # ext)"
    using slt by (simp add: splitext_def dot sep Let_def)
  then show ?thesis by (simp add: get_file_ext_def)
qed


lemma load_properties_csv:
  "get_file_ext f = Some ''csv'' \<Longrightarrow>
   dict_to_uno_properties (load_properties_for f) =
     [\<lparr>Name = ''FilterName'', Value = ''Text - txt - csv (StarCalc)''\<rparr>,
      \<lparr>Name = ''FilterOptions'', Value = ''44,34,0''\<rparr>]"
  by (simp add: load_properties_for_def dict_in_def IMPORT_FILTER_MAP_def dict_update_def
      dict_to_uno_properties_def)

lemma load_properties_unregistered:
  "\<not> dict_in (get_file_ext f) IMPORT_FILTER_MAP \<Longrightarrow>
   dict_to_uno_properties (load_properties_for f) = []"
  by (simp add: load_properties_for_def dict_to_uno_properties_def)

lemma concat_map_Nil: "list_all (\<lambda>x. f x = []) xs \<Longrightarrow> concat (map f xs) = []"
  by (induction xs) auto

lemma list_all_concat_map:
  "list_all (\<lambda>x. list_all Q (f x)) xs \<Longrightarrow> list_all Q (concat (map f xs))"
  by (induction xs) auto

lemma emits_after_load:
  assumes "\<And>d r. P (Refresh d r)"
    and "slow \<Longrightarrow> P (Sleep 1)"
    and "\<And>d r. P (GetSheets d r)"
    and "\<And>ss r. P (GetCount ss r)"
    and "\<And>ss i r. P (GetByIndex ss i r)"
    and "\<And>d r. P (GetCurrentController d r)"
    and "\<And>c sh r. P (SetActiveSheet c sh r)"
    and "\<And>sh r. P (GetName sh r)"
    and "\<And>d u r. P (StoreToURL d u (dict_to_uno_properties CSV_EXPORT_FILTER) r)"
    and "\<And>d r. \<not> keep \<Longrightarrow> P (Close d True r)"
  shows "emits P (bind (try_except (document_refresh off document)
                          (\<lambda>e. e = AttributeError) (\<lambda>e. return ()))
                    (\<lambda>_. export_then_close off env document out ext slow keep ign))"
  unfolding export_then_close_def
  by (intro emits_bind emits_try_except emits_try_finally emits_if emits_return
      emits_document_refresh emits_document_close emits_export_all assms) simp_all

lemma convert_run:
  assumes "loadComponentFromURL off (desktop self) (path_to_url env inp) ''_blank'' 0
             (dict_to_uno_properties (load_properties_for inp)) s = (lr, s1)"
  shows "convert off env self inp out slow keep ign s =
     (case lr of
        Inl e \<Rightarrow>
          (Inl e, s1, [LoadComponentFromURL (desktop self) (path_to_url env inp) ''_blank'' 0
                         (dict_to_uno_properties (load_properties_for inp)) lr])
      | Inr document \<Rightarrow>
          (case bind (try_except (document_refresh off document)
                        (\<lambda>e. e = AttributeError) (\<lambda>e. return ()))
                  (\<lambda>_. export_then_close off env document out ''csv'' slow keep ign) s1 of
             (r, s2, evs) \<Rightarrow>
               (r, s2, LoadComponentFromURL (desktop self) (path_to_url env inp) ''_blank'' 0
                         (dict_to_uno_properties (load_properties_for inp)) lr # evs)))"
  using assms
  by (simp add: convert_def Let_def bind_def [of "call _ _"] call_def split: sum.splits prod.splits)

lemma emits_convert:
  assumes "\<And>dk u t f p r. P (LoadComponentFromURL dk u t f p r)"
    and "\<And>d r. P (Refresh d r)"
    and "slow \<Longrightarrow> P (Sleep 1)"
    and "\<And>d r. P (GetSheets d r)"
    and "\<And>ss r. P (GetCount ss r)"
    and "\<And>ss i r. P (GetByIndex ss i r)"
    and "\<And>d r. P (GetCurrentController d r)"
    and "\<And>c sh r. P (SetActiveSheet c sh r)"
    and "\<And>sh r. P (GetName sh r)"
    and "\<And>d u r. P (StoreToURL d u (dict_to_uno_properties CSV_EXPORT_FILTER) r)"
    and "\<And>d r. \<not> keep \<Longrightarrow> P (Close d True r)"
  shows "emits P (convert off env self inp out slow keep ign)"
  unfolding convert_def Let_def
  by (intro emits_bind emits_call emits_after_load assms)

lemma convert_load_calls:
  "load_calls (events (convert off env self inp out slow keep ign s)) =
     [(desktop self, path_to_url env inp, ''_blank'', 0,
       dict_to_uno_properties (load_properties_for inp))]"
proof -
  let ?url = "path_to_url env inp" and ?props = "dict_to_uno_properties (load_properties_for inp)"
  obtain lr s1 where load: "loadComponentFromURL off (desktop self) ?url ''_blank'' 0 ?props s = (lr, s1)"
    by (cases "loadComponentFromURL off (desktop self) ?url ''_blank'' 0 ?props s") auto
  show ?thesis
  proof (cases lr)
    case (Inl e)
    then show ?thesis by (simp add: convert_run [OF load] load_calls_def)
  next
    case (Inr document)
    let ?rest = "bind (try_except (document_refresh off document)
                        (\<lambda>e. e = AttributeError) (\<lambda>e. return ()))
                  (\<lambda>_. export_then_close off env document out ''csv'' slow keep ign)"
    obtain r s2 evs where rest: "?rest s1 = (r, s2, evs)"
      by (cases "?rest s1") auto
    have "emits (\<lambda>ev. load_call ev = []) ?rest"
      by (intro emits_after_load) simp_all
    from emitsD [OF this rest] have "concat (map load_call evs) = []"
      by (rule concat_map_Nil)
    with Inr rest show ?thesis by (simp add: convert_run [OF load] load_calls_def)
  qed
qed

lemma refresh_step:
  assumes "refresh off d s1 = (rr, s2)" and "rr = Inr () \<or> rr = Inl AttributeError"
  shows "bind (try_except (document_refresh off (Some d))
                 (\<lambda>e. e = AttributeError) (\<lambda>e. return ())) k s1 =
         (case k () s2 of (r, s3, evs) \<Rightarrow> (r, s3, Refresh d rr # evs))"
  using assms
  by (auto simp: bind_def try_except_def document_refresh_def on_document_def call_def
      return_def split: prod.splits)

lemma export_then_close_run:
  assumes "export_all off env (Some d) out ext slow ign s = (r, s1, evs)"
    and "close off d True s1 = (rc, s2)"
  shows "export_then_close off env (Some d) out ext slow False ign s =
           ((case rc of Inl e \<Rightarrow> Inl e | Inr u \<Rightarrow> r), s2, evs @ [Close d True rc])"
  using assms
  by (simp add: export_then_close_def try_finally_def document_close_def on_document_def
      call_def split: sum.splits)

lemma export_all_no_close:
  assumes "export_all off env document out ext slow ign s = (r, s1, evs)"
  shows "close_calls evs = []"
proof -
  have "emits (\<lambda>ev. close_call ev = []) (export_all off env document out ext slow ign)"
    by (intro emits_export_all) simp_all
  from emitsD [OF this assms] show ?thesis
    unfolding close_calls_def by (rule concat_map_Nil)
qed

subsection \<open>Runs of the export loop\<close>

lemmas obs_defs = visited_def fetched_def named_def stored_def store_calls_def pauses_def
  counts_def close_calls_def close_failures_def load_calls_def

lemmas io_defs = bind_def call_def return_def raise_def sleep_def on_document_def
  document_CurrentController_def document_storeToURL_def

lemma obs_append:
  "visited (xs @ ys) = visited xs @ visited ys"
  "fetched (xs @ ys) = fetched xs @ fetched ys"
  "named (xs @ ys) = named xs @ named ys"
  "stored (xs @ ys) = stored xs @ stored ys"
  "store_calls (xs @ ys) = store_calls xs @ store_calls ys"
  "pauses (xs @ ys) = pauses xs @ pauses ys"
  "counts (xs @ ys) = counts xs @ counts ys"
  "close_calls (xs @ ys) = close_calls xs @ close_calls ys"
  "close_failures (xs @ ys) = close_failures xs @ close_failures ys"
  by (simp_all add: obs_defs)

lemma export_sheet_success:
  assumes "export_sheet off env document ss out ''csv'' props slow ign i s = (Inr (), s', evs)"
  shows "\<exists>sh nm. visited evs = [i] \<and> fetched evs = [(i, sh)]
    \<and> named evs = (if ign then [] else [(sh, nm)])
    \<and> store_calls evs =
         [(output_url env out (if ign then ''sheet-'' @ str_int (i + 1) else nm),
           dict_to_uno_properties props, Inr ())]
    \<and> stored evs = [output_url env out (if ign then ''sheet-'' @ str_int (i + 1) else nm)]
    \<and> pauses evs = (if slow then [1] else [])"
  using assms
  unfolding export_sheet_def io_defs obs_defs output_url_def Let_def
  by (auto split: prod.splits sum.splits option.splits if_splits)

lemma export_sheet_failure:
  assumes "export_sheet off env document ss out ''csv'' props slow ign i s = (Inl e, s', evs)"
  shows "stored evs = [] \<and>
    (store_calls evs = [] \<or>
     (\<exists>sh nm. visited evs = [i] \<and> fetched evs = [(i, sh)]
        \<and> named evs = (if ign then [] else [(sh, nm)])
        \<and> store_calls evs =
             [(output_url env out (if ign then ''sheet-'' @ str_int (i + 1) else nm),
               dict_to_uno_properties props, Inl e)]))"
  using assms
  unfolding export_sheet_def io_defs obs_defs output_url_def Let_def
  by (auto split: prod.splits sum.splits option.splits if_splits)

lemma for_loop_Cons_run:
  assumes "for_loop (i # xs) body s = (r, s', evs)"
  obtains (stop) e where "body i s = (Inl e, s', evs)" "r = Inl e"
  | (continue) s1 ev1 ev2 where "body i s = (Inr (), s1, ev1)"
      "for_loop xs body s1 = (r, s', ev2)" "evs = ev1 @ ev2"
proof -
  obtain r1 s1 ev1 where b: "body i s = (r1, s1, ev1)"
    by (cases "body i s") auto
  show ?thesis
  proof (cases r1)
    case (Inl e)
    with assms b have "body i s = (Inl e, s', evs)" "r = Inl e" by auto
    then show ?thesis by (rule stop)
  next
    case (Inr u)
    obtain r2 s2 ev2 where l: "for_loop xs body s1 = (r2, s2, ev2)"
      by (cases "for_loop xs body s1") auto
    from assms b Inr l have "body i s = (Inr (), s1, ev1)"
      "for_loop xs body s1 = (r, s', ev2)" "evs = ev1 @ ev2" by auto
    then show ?thesis by (rule continue)
  qed
qed

lemma for_loop_success:
  assumes "for_loop xs (export_sheet off env document ss out ''csv'' props slow ign) s
             = (Inr (), s', evs)"
  shows "visited evs = xs \<and> map fst (fetched evs) = xs
     \<and> map fst (named evs) = (if ign then [] else map snd (fetched evs))
     \<and> map fst (store_calls evs) =
          (if ign then map (\<lambda>i. output_url env out (''sheet-'' @ str_int (i + 1))) xs
           else map (\<lambda>(sh, nm). output_url env out nm) (named evs))
     \<and> map snd (store_calls evs) = replicate (length xs) (dict_to_uno_properties props, Inr ())
     \<and> stored evs = map fst (store_calls evs)
     \<and> pauses evs = (if slow then replicate (length xs) 1 else [])"
  using assms
proof (induction xs arbitrary: s evs)
  case Nil
  then show ?case by (simp add: obs_defs)
next
  case (Cons i xs)
  from Cons.prems show ?case
  proof (cases rule: for_loop_Cons_run)
    case (stop e)
    then show ?thesis by simp
  next
    case (continue s1 ev1 ev2)
    from export_sheet_success [OF continue(1)] obtain sh nm where
      one: "visited ev1 = [i]" "fetched ev1 = [(i, sh)]"
        "named ev1 = (if ign then [] else [(sh, nm)])"
        "store_calls ev1 =
           [(output_url env out (if ign then ''sheet-'' @ str_int (i + 1) else nm),
             dict_to_uno_properties props, Inr ())]"
        "stored ev1 = [output_url env out (if ign then ''sheet-'' @ str_int (i + 1) else nm)]"
        "pauses ev1 = (if slow then [1] else [])"
      by blast
    from Cons.IH [OF continue(2)] one show ?thesis
      by (simp add: continue(3) obs_append)
  qed
qed

lemma for_loop_store_failure:
  assumes "for_loop xs (export_sheet off env document ss out ''csv'' props slow ign) s
             = (r, s', evs)"
    and "(u, p, Inl e) \<in> set (store_calls evs)"
  shows "r = Inl e \<and> length (stored evs) < length xs
     \<and> visited evs = take (Suc (length (stored evs))) xs
     \<and> map fst (fetched evs) = visited evs
     \<and> map fst (named evs) = (if ign then [] else map snd (fetched evs))
     \<and> map fst (store_calls evs) =
          (if ign then map (\<lambda>i. output_url env out (''sheet-'' @ str_int (i + 1))) (visited evs)
           else map (\<lambda>(sh, nm). output_url env out nm) (named evs))
     \<and> store_calls evs =
          map (\<lambda>v. (v, dict_to_uno_properties props, Inr ())) (stored evs)
            @ [(u, dict_to_uno_properties props, Inl e)]"
  using assms
proof (induction xs arbitrary: s evs)
  case Nil
  then show ?case by (simp add: obs_defs)
next
  case (Cons i xs)
  from Cons.prems(1) show ?case
  proof (cases rule: for_loop_Cons_run)
    case (stop e')
    from export_sheet_failure [OF stop(1)] Cons.prems(2) obtain sh nm where
      one: "stored evs = []" "visited evs = [i]" "fetched evs = [(i, sh)]"
        "named evs = (if ign then [] else [(sh, nm)])"
        "store_calls evs =
           [(output_url env out (if ign then ''sheet-'' @ str_int (i + 1) else nm),
             dict_to_uno_properties props, Inl e')]"
      by fastforce
    with Cons.prems(2) have "e' = e"
      "u = output_url env out (if ign then ''sheet-'' @ str_int (i + 1) else nm)"
      by simp_all
    with one stop(2) show ?thesis by simp
  next
    case (continue s1 ev1 ev2)
    from export_sheet_success [OF continue(1)] obtain sh nm where
      one: "visited ev1 = [i]" "fetched ev1 = [(i, sh)]"
        "named ev1 = (if ign then [] else [(sh, nm)])"
        "store_calls ev1 =
           [(output_url env out (if ign then ''sheet-'' @ str_int (i + 1) else nm),
             dict_to_uno_properties props, Inr ())]"
        "stored ev1 = [output_url env out (if ign then ''sheet-'' @ str_int (i + 1) else nm)]"
      by blast
    from Cons.prems(2) one(4) have "(u, p, Inl e) \<in> set (store_calls ev2)"
      by (auto simp: continue(3) obs_append)
    from Cons.IH [OF continue(2) this] have
      ih: "r = Inl e" "length (stored ev2) < length xs"
        "visited ev2 = take (Suc (length (stored ev2))) xs"
        "map fst (fetched ev2) = visited ev2"
        "map fst (named ev2) = (if ign then [] else map snd (fetched ev2))"
        "map fst (store_calls ev2) =
          (if ign then map (\<lambda>i. output_url env out (''sheet-'' @ str_int (i + 1))) (visited ev2)
           else map (\<lambda>(sh, nm). output_url env out nm) (named ev2))"
        "store_calls ev2 =
          map (\<lambda>v. (v, dict_to_uno_properties props, Inr ())) (stored ev2)
            @ [(u, dict_to_uno_properties props, Inl e)]"
      by blast+
    have 1: "length (stored evs) < length (i # xs)"
      using ih(2) one(5) by (simp add: continue(3) obs_append)
    have 2: "visited evs = take (Suc (length (stored evs))) (i # xs)"
      using ih(3) one(1,5) by (simp add: continue(3) obs_append)
    have 3: "map fst (fetched evs) = visited evs"
      using ih(4) one(1,2) by (simp add: continue(3) obs_append)
    have 4: "map fst (named evs) = (if ign then [] else map snd (fetched evs))"
      using ih(5) one(2,3) by (simp add: continue(3) obs_append)
    have 5: "map fst (store_calls evs) =
          (if ign then map (\<lambda>i. output_url env out (''sheet-'' @ str_int (i + 1))) (visited evs)
           else map (\<lambda>(sh, nm). output_url env out nm) (named evs))"
      using ih(6) one(1,3,4) by (simp add: continue(3) obs_append)
    have 6: "store_calls evs =
          map (\<lambda>v. (v, dict_to_uno_properties props, Inr ())) (stored evs)
            @ [(u, dict_to_uno_properties props, Inl e)]"
      using ih(7) one(4,5) by (simp add: continue(3) obs_append)
    from ih(1) 1 2 3 4 5 6 show ?thesis by blast
  qed
qed

lemma export_all_run:
  assumes "export_all off env document out ext slow ign s = (r, s', evs)"
  obtains (early) e where "r = Inl e" "store_calls evs = []"
  | (loop) d ss n s1 evl where "document = Some d"
      "for_loop (range_py n) (export_sheet off env document ss out ext CSV_EXPORT_FILTER slow ign) s1
         = (r, s', evl)"
      "evs = GetSheets d (Inr ss) # GetCount ss (Inr n) # evl"
proof (cases document)
  case None
  with assms have "r = Inl AttributeError" "store_calls evs = []"
    by (auto simp: export_all_def document_Sheets_def io_defs obs_defs)
  then show ?thesis by (rule early)
next
  case (Some d)
  obtain r1 s1 where sh: "get_Sheets off d s = (r1, s1)"
    by (cases "get_Sheets off d s") auto
  show ?thesis
  proof (cases r1)
    case (Inl e)
    with assms Some sh have "r = Inl e" "store_calls evs = []"
      by (auto simp: export_all_def document_Sheets_def io_defs obs_defs)
    then show ?thesis by (rule early)
  next
    case (Inr ss)
    obtain r2 s2 where ct: "get_Count off ss s1 = (r2, s2)"
      by (cases "get_Count off ss s1") auto
    show ?thesis
    proof (cases r2)
      case (Inl e)
      with assms Some sh Inr ct have "r = Inl e" "store_calls evs = []"
        by (auto simp: export_all_def document_Sheets_def io_defs obs_defs)
      then show ?thesis by (rule early)
    next
      case (Inr n)
      obtain rl sl evl where lp:
        "for_loop (range_py n) (export_sheet off env document ss out ext CSV_EXPORT_FILTER slow ign) s2
           = (rl, sl, evl)"
        by (cases "for_loop (range_py n)
              (export_sheet off env document ss out ext CSV_EXPORT_FILTER slow ign) s2") auto
      from assms Some sh \<open>r1 = Inr ss\<close> ct Inr lp
      have "r = rl" "s' = sl" "evs = GetSheets d (Inr ss) # GetCount ss (Inr n) # evl"
        by (auto simp: export_all_def document_Sheets_def io_defs)
      with lp Some show ?thesis by (auto intro: loop)
    qed
  qed
qed

lemma export_then_close_keep:
  "export_then_close off env document out ext slow True ign s =
     export_all off env document out ext slow ign s"
  by (simp add: export_then_close_def try_finally_def return_def split: prod.splits)

lemma export_then_close_None:
  "\<exists>e. export_then_close off env None out ext slow keep ign s = (Inl e, s, [])"
  by (simp add: export_then_close_def try_finally_def export_all_def document_Sheets_def
      document_close_def io_defs)

lemma refresh_raises:
  assumes "refresh off d s1 = (Inl e, s2)" and "e \<noteq> AttributeError"
  shows "bind (try_except (document_refresh off (Some d))
                 (\<lambda>e. e = AttributeError) (\<lambda>e. return ())) k s1 = (Inl e, s2, [Refresh d (Inl e)])"
  using assms
  by (simp add: bind_def try_except_def document_refresh_def on_document_def call_def)

lemma refresh_None:
  "bind (try_except (document_refresh off None)
           (\<lambda>e. e = AttributeError) (\<lambda>e. return ())) k s1 = k () s1"
  by (simp add: bind_def try_except_def document_refresh_def on_document_def raise_def
      return_def split: prod.splits)

lemma convert_reaches_loop:
  assumes run: "convert off env self inp out slow keep ign s = (r, s', evs)"
    and reach: "r = Inr () \<or> store_calls evs \<noteq> []"
  obtains d rr ss n s1 s2 rl evl post where
    "for_loop (range_py n) (export_sheet off env (Some d) ss out ''csv'' CSV_EXPORT_FILTER slow ign) s1
       = (rl, s2, evl)"
    "evs = LoadComponentFromURL (desktop self) (path_to_url env inp) ''_blank'' 0
             (dict_to_uno_properties (load_properties_for inp)) (Inr (Some d))
           # Refresh d rr # GetSheets d (Inr ss) # GetCount ss (Inr n) # evl @ post"
    "keep \<Longrightarrow> post = [] \<and> r = rl"
    "\<not> keep \<Longrightarrow> \<exists>rc. post = [Close d True rc] \<and> r = (case rc of Inl e \<Rightarrow> Inl e | Inr u \<Rightarrow> rl)"
proof -
  let ?url = "path_to_url env inp" and ?props = "dict_to_uno_properties (load_properties_for inp)"
  obtain lr s0 where load: "loadComponentFromURL off (desktop self) ?url ''_blank'' 0 ?props s = (lr, s0)"
    by (cases "loadComponentFromURL off (desktop self) ?url ''_blank'' 0 ?props s") auto
  note cr = convert_run [OF load, of out slow keep ign]
  show ?thesis
  proof (cases lr)
    case (Inl e)
    with run cr have "r = Inl e" "store_calls evs = []"
      by (auto simp: obs_defs)
    with reach show ?thesis by simp
  next
    case (Inr document)
    show ?thesis
    proof (cases document)
      case None
      obtain e where "export_then_close off env None out ''csv'' slow keep ign s0 = (Inl e, s0, [])"
        using export_then_close_None [of off env out "''csv''" slow keep ign s0] by blast
      with run cr Inr None have "r = Inl e" "store_calls evs = []"
        by (auto simp: refresh_None obs_defs)
      with reach show ?thesis by simp
    next
      case (Some d)
      obtain rr s1 where rf: "refresh off d s0 = (rr, s1)"
        by (cases "refresh off d s0") auto
      show ?thesis
      proof (cases "rr = Inr () \<or> rr = Inl AttributeError")
        case False
        then obtain e where e: "rr = Inl e" "e \<noteq> AttributeError"
          by (cases rr) auto
        have "bind (try_except (document_refresh off (Some d))
                 (\<lambda>e. e = AttributeError) (\<lambda>e. return ()))
                (\<lambda>_. export_then_close off env (Some d) out ''csv'' slow keep ign) s0
              = (Inl e, s1, [Refresh d (Inl e)])"
          using rf e by (intro refresh_raises) simp_all
        with run cr Inr Some have "r = Inl e" "store_calls evs = []"
          by (auto simp: obs_defs)
        with reach show ?thesis by simp
      next
        case True
        note step = refresh_step [OF rf True,
            of "\<lambda>_. export_then_close off env (Some d) out ''csv'' slow keep ign"]
        obtain rx sx evx where ex: "export_all off env (Some d) out ''csv'' slow ign s1 = (rx, sx, evx)"
          by (cases "export_all off env (Some d) out ''csv'' slow ign s1") auto
        obtain rc sc where cl: "close off d True sx = (rc, sc)"
          by (cases "close off d True sx") auto
        have conv: "(r, s', evs) =
            (case export_then_close off env (Some d) out ''csv'' slow keep ign s1 of
               (r, s3, evs) \<Rightarrow> (r, s3,
                 LoadComponentFromURL (desktop self) ?url ''_blank'' 0 ?props (Inr (Some d))
                 # Refresh d rr # evs))"
          using run cr Inr Some step by (simp split: prod.splits)
        from ex show ?thesis
        proof (cases rule: export_all_run)
          case (early e)
          show ?thesis
          proof (cases keep)
            case True
            with conv ex early have "r = Inl e" "store_calls evs = []"
              by (auto simp: export_then_close_keep obs_defs)
            with reach show ?thesis by simp
          next
            case False
            with conv early export_then_close_run [OF ex cl]
            have "\<exists>e'. r = Inl e'" "store_calls evs = []"
              by (auto simp: obs_defs split: sum.splits)
            with reach show ?thesis by auto
          qed
        next
          case (loop d' ss n s2 evl)
          show ?thesis
          proof (cases keep)
            case True
            with conv ex loop have
              "evs = LoadComponentFromURL (desktop self) ?url ''_blank'' 0 ?props (Inr (Some d))
                 # Refresh d rr # GetSheets d (Inr ss) # GetCount ss (Inr n) # evl @ []"
              "r = rx"
              by (auto simp: export_then_close_keep)
            note facts = this
            have lp: "for_loop (range_py n)
                 (export_sheet off env (Some d) ss out ''csv'' CSV_EXPORT_FILTER slow ign) s2
                   = (rx, sx, evl)"
              using loop(2) by simp
            have k1: "keep \<Longrightarrow> [] = ([] :: event list) \<and> r = rx" using facts(2) by simp
            have k2: "\<not> keep \<Longrightarrow> \<exists>rc. [] = [Close d True rc]
                        \<and> r = (case rc of Inl e \<Rightarrow> Inl e | Inr u \<Rightarrow> rx)"
              using True by simp
            show ?thesis by (rule that [OF lp facts(1) k1 k2])
          next
            case False
            with conv loop export_then_close_run [OF ex cl] have
              "evs = LoadComponentFromURL (desktop self) ?url ''_blank'' 0 ?props (Inr (Some d))
                 # Refresh d rr # GetSheets d (Inr ss) # GetCount ss (Inr n) # evl @ [Close d True rc]"
              "r = (case rc of Inl e \<Rightarrow> Inl e | Inr u \<Rightarrow> rx)"
              by auto
            note facts = this
            have lp: "for_loop (range_py n)
                 (export_sheet off env (Some d) ss out ''csv'' CSV_EXPORT_FILTER slow ign) s2
                   = (rx, sx, evl)"
              using loop(2) by simp
            have k1: "keep \<Longrightarrow> [Close d True rc] = [] \<and> r = rx" using False by simp
            have k2: "\<not> keep \<Longrightarrow> \<exists>rc'. [Close d True rc] = [Close d True rc']
                        \<and> r = (case rc' of Inl e \<Rightarrow> Inl e | Inr u \<Rightarrow> rx)"
              using facts(2) by simp
            show ?thesis by (rule that [OF lp facts(1) k1 k2])
          qed
        qed
      qed
    qed
  qed
qed

lemma convert_reaches_loop_ex:
  assumes "convert off env self inp out slow keep ign s = (r, s', evs)"
    and "r = Inr () \<or> store_calls evs \<noteq> []"
  shows "\<exists>d rr ss n s1 s2 rl evl post.
    for_loop (range_py n) (export_sheet off env (Some d) ss out ''csv'' CSV_EXPORT_FILTER slow ign) s1
       = (rl, s2, evl)
    \<and> evs = LoadComponentFromURL (desktop self) (path_to_url env inp) ''_blank'' 0
             (dict_to_uno_properties (load_properties_for inp)) (Inr (Some d))
           # Refresh d rr # GetSheets d (Inr ss) # GetCount ss (Inr n) # evl @ post
    \<and> ((keep \<and> post = [] \<and> r = rl)
       \<or> (\<not> keep \<and> post = [Close d True (Inr ())] \<and> r = rl)
       \<or> (\<not> keep \<and> (\<exists>e'. post = [Close d True (Inl e')] \<and> r = Inl e')))"
proof (rule convert_reaches_loop [OF assms])
  fix d rr ss n s1 s2 rl evl post
  assume lp: "for_loop (range_py n)
      (export_sheet off env (Some d) ss out ''csv'' CSV_EXPORT_FILTER slow ign) s1 = (rl, s2, evl)"
    and evs: "evs = LoadComponentFromURL (desktop self) (path_to_url env inp) ''_blank'' 0
             (dict_to_uno_properties (load_properties_for inp)) (Inr (Some d))
           # Refresh d rr # GetSheets d (Inr ss) # GetCount ss (Inr n) # evl @ post"
    and k1: "keep \<Longrightarrow> post = [] \<and> r = rl"
    and k2: "\<not> keep \<Longrightarrow> \<exists>rc. post = [Close d True rc]
            \<and> r = (case rc of Inl e \<Rightarrow> Inl e | Inr u \<Rightarrow> rl)"
  have pc: "(keep \<and> post = [] \<and> r = rl)
       \<or> (\<not> keep \<and> post = [Close d True (Inr ())] \<and> r = rl)
       \<or> (\<not> keep \<and> (\<exists>e'. post = [Close d True (Inl e')] \<and> r = Inl e'))"
  proof (cases keep)
    case True
    with k1 show ?thesis by simp
  next
    case False
    from k2 [OF False] obtain rc where rc: "post = [Close d True rc]"
      "r = (case rc of Inl e \<Rightarrow> Inl e | Inr u \<Rightarrow> rl)"
      by (elim exE conjE)
    show ?thesis
    proof (cases rc)
      case (Inl e')
      with rc False show ?thesis by simp
    next
      case (Inr u)
      with rc False show ?thesis by simp
    qed
  qed
  from lp evs pc show ?thesis by blast
qed

lemma length_range_py [simp]: "length (range_py n) = nat n"
  by (simp add: range_py_def)

lemma take_range: "k < nat n \<Longrightarrow> take (Suc k) (range_py n) = range_py (int k + 1)"
proof -
  assume k: "k < nat n"
  have "nat (int k + 1) = Suc k" by simp
  moreover have "take (Suc k) [0..<nat n] = [0..<Suc k]"
    using k by (simp add: take_upt del: upt_Suc)
  ultimately show ?thesis
    unfolding range_py_def by (simp add: take_map del: upt_Suc)
qed

lemma convert_success_run:
  assumes "convert off env self inp out slow keep ign s = (Inr (), s', evs)"
  shows "\<exists>n. counts evs = [n] \<and> visited evs = range_py n \<and> map fst (fetched evs) = range_py n
     \<and> map fst (named evs) = (if ign then [] else map snd (fetched evs))
     \<and> map fst (store_calls evs) =
          (if ign then map (\<lambda>i. output_url env out (''sheet-'' @ str_int (i + 1))) (range_py n)
           else map (\<lambda>(sh, nm). output_url env out nm) (named evs))
     \<and> map snd (store_calls evs) =
          replicate (nat n) (dict_to_uno_properties CSV_EXPORT_FILTER, Inr ())
     \<and> stored evs = map fst (store_calls evs)
     \<and> pauses evs = (if slow then replicate (nat n) 1 else [])"
proof -
  from assms obtain d rr ss n s1 s2 rl evl post where
    lp: "for_loop (range_py n) (export_sheet off env (Some d) ss out ''csv'' CSV_EXPORT_FILTER slow ign) s1
       = (rl, s2, evl)"
    and evs: "evs = LoadComponentFromURL (desktop self) (path_to_url env inp) ''_blank'' 0
             (dict_to_uno_properties (load_properties_for inp)) (Inr (Some d))
           # Refresh d rr # GetSheets d (Inr ss) # GetCount ss (Inr n) # evl @ post"
    and pc: "(keep \<and> post = [] \<and> Inr () = rl)
       \<or> (\<not> keep \<and> post = [Close d True (Inr ())] \<and> Inr () = rl)
       \<or> (\<not> keep \<and> (\<exists>e'. post = [Close d True (Inl e')] \<and> Inr () = Inl e'))"
    using convert_reaches_loop_ex [OF assms disjI1 [OF refl]] by blast
  have rl: "rl = Inr ()"
    using pc by auto
  have post: "post = [] \<or> (\<exists>rc. post = [Close d True rc])"
    using pc by auto
  have same: "visited evs = visited evl" "fetched evs = fetched evl" "named evs = named evl"
    "store_calls evs = store_calls evl" "stored evs = stored evl" "pauses evs = pauses evl"
    "counts evs = n # counts evl"
    using post by (auto simp: evs obs_defs)
  have c0: "counts evl = []"
  proof -
    have "emits (\<lambda>ev. count_read ev = [])
            (for_loop (range_py n) (export_sheet off env (Some d) ss out ''csv'' CSV_EXPORT_FILTER slow ign))"
      by (intro emits_for_loop emits_export_sheet) simp_all
    from emitsD [OF this lp] show ?thesis
      unfolding counts_def by (rule concat_map_Nil)
  qed
  from for_loop_success [OF lp [unfolded rl]] same c0 show ?thesis
    by simp
qed

subsection \<open>File names and sheet activation\<close>












subsection \<open>Pacing\<close>

lemma paced_append: "paced b xs \<Longrightarrow> paced False ys \<Longrightarrow> paced b (xs @ ys)"
  by (induction b xs rule: paced.induct) auto

lemma paced_counts:
  "paced b evs \<Longrightarrow>
   length (visited evs) = length (pauses evs) + (if b then 1 else 0)
   \<and> (\<forall>n \<in> set (pauses evs). n = 1)"
  by (induction b evs rule: paced.induct) (auto simp: obs_defs)

lemma paced_pauses:
  assumes "paced False evs"
  shows "pauses evs = replicate (length (visited evs)) 1"
proof -
  from paced_counts [OF assms] have "length (visited evs) = length (pauses evs)"
    and "\<forall>n \<in> set (pauses evs). n = 1" by simp_all
  then show ?thesis by (simp add: replicate_length_same)
qed

lemma well_pacedD: "well_paced m \<Longrightarrow> m s = (r, s', evs) \<Longrightarrow> paced False evs"
  unfolding well_paced_def by (metis events_triple)

lemma well_paced_return: "well_paced (return a)"
  by (simp add: well_paced_def return_def)

lemma well_paced_raise: "well_paced (raise e)"
  by (simp add: well_paced_def raise_def)

lemma well_paced_call: "(\<And>r. paced False [ev r]) \<Longrightarrow> well_paced (call ev f)"
  by (simp add: well_paced_def call_def split: prod.splits)

lemma well_paced_bind:
  assumes "well_paced m" and "\<And>a. well_paced (f a)"
  shows "well_paced (bind m f)"
  unfolding well_paced_def
proof
  fix s
  show "paced False (events (bind m f s))"
    using well_pacedD [OF assms(1)] well_pacedD [OF assms(2)]
    by (auto simp: bind_def paced_append split: prod.splits sum.splits)
qed

lemma well_paced_try_except:
  assumes "well_paced body" and "\<And>e. well_paced (handler e)"
  shows "well_paced (try_except body catches handler)"
  unfolding well_paced_def
proof
  fix s
  show "paced False (events (try_except body catches handler s))"
    using well_pacedD [OF assms(1)] well_pacedD [OF assms(2)]
    by (auto simp: try_except_def paced_append split: prod.splits sum.splits)
qed

lemma well_paced_try_finally:
  assumes "well_paced body" and "well_paced fin"
  shows "well_paced (try_finally body fin)"
  unfolding well_paced_def
proof
  fix s
  show "paced False (events (try_finally body fin s))"
    using well_pacedD [OF assms(1)] well_pacedD [OF assms(2)]
    by (auto simp: try_finally_def paced_append split: prod.splits sum.splits)
qed

lemma well_paced_for_loop:
  assumes "\<And>i. well_paced (body i)"
  shows "well_paced (for_loop xs body)"
  unfolding well_paced_def
proof
  fix s
  show "paced False (events (for_loop xs body s))"
  proof (induction xs arbitrary: s)
    case Nil
    show ?case by simp
  next
    case (Cons i xs)
    obtain r s1 ev1 where b: "body i s = (r, s1, ev1)"
      by (cases "body i s") auto
    have p1: "paced False ev1" using well_pacedD [OF assms b] .
    obtain r2 s2 ev2 where l: "for_loop xs body s1 = (r2, s2, ev2)"
      by (cases "for_loop xs body s1") auto
    have p2: "paced False ev2" using Cons.IH [of s1] l by simp
    show ?case using b l p1 p2 by (cases r) (simp_all add: paced_append)
  qed
qed

lemma well_paced_on_document:
  "(\<And>d. well_paced (f d)) \<Longrightarrow> well_paced (on_document document f)"
  by (cases document) (simp_all add: on_document_def well_paced_raise)

lemma well_paced_if:
  "(c \<Longrightarrow> well_paced m) \<Longrightarrow> (\<not> c \<Longrightarrow> well_paced n) \<Longrightarrow> well_paced (if c then m else n)"
  by simp

lemma well_paced_pause_fetch:
  assumes "\<And>a. well_paced (k a)"
  shows "well_paced (bind (sleep 1) (\<lambda>_. bind (call (GetByIndex ss i) f) k))"
  unfolding well_paced_def
proof
  fix s
  show "paced False (events (bind (sleep 1) (\<lambda>_. bind (call (GetByIndex ss i) f) k) s))"
    using well_pacedD [OF assms]
    by (auto simp: bind_def sleep_def call_def split: prod.splits sum.splits)
qed

lemma well_paced_export_sheet:
  "well_paced (export_sheet off env document ss out ext props True ign i)"
  unfolding export_sheet_def document_CurrentController_def document_storeToURL_def Let_def
    if_True
  by (intro well_paced_pause_fetch well_paced_bind well_paced_if well_paced_return
      well_paced_call well_paced_on_document) simp_all

lemma well_paced_convert:
  "well_paced (convert off env self inp out True keep ign)"
  unfolding convert_def export_then_close_def export_all_def document_Sheets_def
    document_refresh_def document_close_def Let_def
  by (intro well_paced_bind well_paced_try_except well_paced_try_finally well_paced_for_loop
      well_paced_if well_paced_return well_paced_call well_paced_on_document
      well_paced_export_sheet) simp_all

lemma run_eq: "x = (outcome x, fst (snd x), events x)"
  by (cases x) (simp add: outcome_def events_def)

section \<open>Properties of the conversion\<close>

subsection \<open>Import filter selection\<close>

text \<open>
  Claim C3. For every input path, \<^verbatim>\<open>convert\<close> performs exactly one load call, on the
  desktop of the session, with the URL of the input path, target \<^verbatim>\<open>_blank\<close> and
  search flags 0. If the lower-cased extension (\<open>get_file_ext\<close>) is \<^verbatim>\<open>csv\<close>, the
  properties passed are exactly FilterName = "Text - txt - csv (StarCalc)" and
  FilterOptions = "44,34,0"; if the extension is not a key of \<open>IMPORT_FILTER_MAP\<close>, no
  property is passed. The extension of a path \<^verbatim>\<open>stem.ext\<close>, where \<^verbatim>\<open>ext\<close> has neither
  dot nor slash and the file name in \<^verbatim>\<open>stem\<close> is not made of dots only, is \<^verbatim>\<open>ext\<close> in
  lower case.
\<close>

theorem import_filter_by_extension:
  "(get_file_ext inp = Some ''csv'' \<longrightarrow>
      load_calls (events (convert off env self inp out slow keep ign s)) =
        [(desktop self, path_to_url env inp, ''_blank'', 0,
          [\<lparr>Name = ''FilterName'', Value = ''Text - txt - csv (StarCalc)''\<rparr>,
           \<lparr>Name = ''FilterOptions'', Value = ''44,34,0''\<rparr>])])
   \<and> (\<not> dict_in (get_file_ext inp) IMPORT_FILTER_MAP \<longrightarrow>
      load_calls (events (convert off env self inp out slow keep ign s)) =
        [(desktop self, path_to_url env inp, ''_blank'', 0, [])])
   \<and> (CHR ''.'' \<notin> set ext \<and> CHR ''/'' \<notin> set ext
        \<and> (\<exists>c \<in> set (basename stem). c \<noteq> CHR ''.'') \<longrightarrow>
      get_file_ext (stem @ ''.'' @ ext) = Some (str_lower ext))"
proof -
  have "CHR ''.'' \<notin> set ext \<and> CHR ''/'' \<notin> set ext
        \<and> (\<exists>c \<in> set (basename stem). c \<noteq> CHR ''.'') \<longrightarrow>
      get_file_ext (stem @ ''.'' @ ext) = Some (str_lower ext)"
    using get_file_ext_suffix [of ext stem] by blast
  then show ?thesis
    by (simp add: convert_load_calls load_properties_csv load_properties_unregistered)
qed

theorem import_filter_by_extension_witness:
  "get_file_ext ''in/data.CSV'' = Some ''csv''
   \<and> load_calls (events (convert (healthy_office [''Alpha'']) plain_env
         \<lparr>desktop = Desktop 0\<rparr> ''in/data.CSV'' ''out'' False False False 0)) =
        [(Desktop 0, path_to_url plain_env ''in/data.CSV'', ''_blank'', 0,
          [\<lparr>Name = ''FilterName'', Value = ''Text - txt - csv (StarCalc)''\<rparr>,
           \<lparr>Name = ''FilterOptions'', Value = ''44,34,0''\<rparr>])]
   \<and> \<not> dict_in (get_file_ext ''in/data.xyz'') IMPORT_FILTER_MAP
   \<and> load_calls (events (convert (healthy_office [''Alpha'']) plain_env
         \<lparr>desktop = Desktop 0\<rparr> ''in/data.xyz'' ''out'' False False False 0)) =
        [(Desktop 0, path_to_url plain_env ''in/data.xyz'', ''_blank'', 0, [])]
   \<and> str_lower ''CSV'' = ''csv''"
proof -
  have c: "CHR ''.'' \<notin> set ''CSV'' \<and> CHR ''/'' \<notin> set ''CSV''
        \<and> (\<exists>c \<in> set (basename ''in/data''). c \<noteq> CHR ''.'')"
    by code_simp
  have l: "str_lower ''CSV'' = ''csv''"
    by code_simp
  have b: "\<not> dict_in (get_file_ext ''in/data.xyz'') IMPORT_FILTER_MAP"
    by code_simp
  note inst = import_filter_by_extension [where inp = "''in/data.CSV''"
        and off = "healthy_office [''Alpha'']" and env = plain_env
        and self = "\<lparr>desktop = Desktop 0\<rparr>" and out = "''out''" and slow = False
        and keep = False and ign = False and s = 0 and ext = "''CSV''" and stem = "''in/data''"]
  from inst c l have a: "get_file_ext ''in/data.CSV'' = Some ''csv''"
    by simp
  show ?thesis
    using a b l inst
      import_filter_by_extension [where inp = "''in/data.xyz''"
        and off = "healthy_office [''Alpha'']" and env = plain_env
        and self = "\<lparr>desktop = Desktop 0\<rparr>" and out = "''out''" and slow = False
        and keep = False and ign = False and s = 0]
    by simp
qed

text \<open>
  Claim C10. For every input path whose final component contains no dot,
  \<open>get_file_ext\<close> returns the empty string (\<open>Some []\<close>), not \<^verbatim>\<open>None\<close>; the empty string
  is not a key of \<open>IMPORT_FILTER_MAP\<close>, and \<^verbatim>\<open>convert\<close> loads the document with an empty
  property list.
\<close>

theorem no_extension_loads_without_filter:
  assumes "CHR ''.'' \<notin> set (basename inp)"
  shows "get_file_ext inp = Some []
    \<and> \<not> dict_in (Some []) IMPORT_FILTER_MAP
    \<and> load_calls (events (convert off env self inp out slow keep ign s)) =
        [(desktop self, path_to_url env inp, ''_blank'', 0, [])]"
proof -
  have ext: "get_file_ext inp = Some []"
    using assms by (rule get_file_ext_no_dot)
  have notin: "\<not> dict_in (Some []) IMPORT_FILTER_MAP"
    by (simp add: dict_in_def IMPORT_FILTER_MAP_def)
  with ext have "dict_to_uno_properties (load_properties_for inp) = []"
    by (simp add: load_properties_unregistered)
  with ext notin show ?thesis by (simp add: convert_load_calls)
qed

theorem no_extension_loads_without_filter_witness:
  "CHR ''.'' \<notin> set (basename ''my.dir/README'')
   \<and> get_file_ext ''my.dir/README'' = Some []
   \<and> load_calls (events (convert (healthy_office [''Alpha'']) plain_env
         \<lparr>desktop = Desktop 0\<rparr> ''my.dir/README'' ''out'' False False False 0)) =
        [(Desktop 0, path_to_url plain_env ''my.dir/README'', ''_blank'', 0, [])]"
proof -
  have a: "CHR ''.'' \<notin> set (basename ''my.dir/README'')"
    by code_simp
  show ?thesis
    using a no_extension_loads_without_filter [OF a, of "healthy_office [''Alpha'']" plain_env
        "\<lparr>desktop = Desktop 0\<rparr>" "''out''" False False False 0]
    by simp
qed

subsection \<open>The export filter\<close>

text \<open>
  Claim C9. Every \<^verbatim>\<open>storeToURL\<close> call of every run of \<^verbatim>\<open>convert\<close> passes the same
  property list, FilterName = "Text - txt - csv (StarCalc)" and FilterOptions = "44,34,0",
  and this descriptor is the one registered for the extension \<^verbatim>\<open>csv\<close> in the import
  filter map.
\<close>

theorem export_filter_is_constant:
  "list_all (\<lambda>(url, props, r).
       props = [\<lparr>Name = ''FilterName'', Value = ''Text - txt - csv (StarCalc)''\<rparr>,
                \<lparr>Name = ''FilterOptions'', Value = ''44,34,0''\<rparr>])
     (store_calls (events (convert off env self inp out slow keep ign s)))
   \<and> map_of IMPORT_FILTER_MAP ''csv'' = Some CSV_EXPORT_FILTER"
proof -
  let ?Q = "\<lambda>(url :: string, props, r :: exn + unit).
       props = [\<lparr>Name = ''FilterName'', Value = ''Text - txt - csv (StarCalc)''\<rparr>,
                \<lparr>Name = ''FilterOptions'', Value = ''44,34,0''\<rparr>]"
  have "emits (\<lambda>ev. list_all ?Q (store_call ev)) (convert off env self inp out slow keep ign)"
    by (intro emits_convert) (simp_all add: CSV_EXPORT_FILTER_def dict_to_uno_properties_def)
  then have "list_all (\<lambda>ev. list_all ?Q (store_call ev))
               (events (convert off env self inp out slow keep ign s))"
    by (simp add: emits_def)
  then have "list_all ?Q (store_calls (events (convert off env self inp out slow keep ign s)))"
    unfolding store_calls_def by (rule list_all_concat_map)
  moreover have "map_of IMPORT_FILTER_MAP ''csv'' = Some CSV_EXPORT_FILTER"
    by (simp add: IMPORT_FILTER_MAP_def CSV_EXPORT_FILTER_def)
  ultimately show ?thesis by simp
qed

theorem export_filter_is_constant_witness:
  "length (store_calls (events (convert (healthy_office [''Alpha'', ''Beta'']) plain_env
       \<lparr>desktop = Desktop 0\<rparr> ''in/book.ods'' ''out'' False False False 0))) = 2
   \<and> list_all (\<lambda>(url, props, r).
       props = [\<lparr>Name = ''FilterName'', Value = ''Text - txt - csv (StarCalc)''\<rparr>,
                \<lparr>Name = ''FilterOptions'', Value = ''44,34,0''\<rparr>])
     (store_calls (events (convert (healthy_office [''Alpha'', ''Beta'']) plain_env
       \<lparr>desktop = Desktop 0\<rparr> ''in/book.ods'' ''out'' False False False 0)))"
proof -
  have a: "length (store_calls (events (convert (healthy_office [''Alpha'', ''Beta'']) plain_env
       \<lparr>desktop = Desktop 0\<rparr> ''in/book.ods'' ''out'' False False False 0))) = 2"
    by code_simp
  from a export_filter_is_constant [of "healthy_office [''Alpha'', ''Beta'']" plain_env
       "\<lparr>desktop = Desktop 0\<rparr>" "''in/book.ods''" "''out''" False False False 0]
  show ?thesis by blast
qed

subsection \<open>Session establishment\<close>

text \<open>
  Claim C4. For every host and port, if \<^verbatim>\<open>resolve\<close> raises \<^verbatim>\<open>NoConnectException\<close>
  (no connection to the service could be established), the constructor fails with
  \<^verbatim>\<open>LibreOfficeConnectionException\<close> carrying exactly the host and port supplied, and the
  \<^verbatim>\<open>try\<close> body of \<^verbatim>\<open>main\<close> fails with the same exception after the single resolve
  call: \<^verbatim>\<open>convert\<close> is not run and no document is loaded.
\<close>

theorem connection_failure_is_typed:
  assumes "fst (resolve off (connection_url host port) s) = Inl NoConnectException"
  shows "CsvConverter_init off host port s =
           (Inl (LibreOfficeConnectionException host port (connection_message host port)),
            snd (resolve off (connection_url host port) s),
            [Resolve (connection_url host port) (Inl NoConnectException)])
    \<and> main_try off env host port inp out slow keep ign s =
           (Inl (LibreOfficeConnectionException host port (connection_message host port)),
            snd (resolve off (connection_url host port) s),
            [Resolve (connection_url host port) (Inl NoConnectException)])"
proof -
  obtain r s1 where res: "resolve off (connection_url host port) s = (r, s1)"
    by (cases "resolve off (connection_url host port) s") auto
  with assms have r: "r = Inl NoConnectException" by simp
  have init: "CsvConverter_init off host port s =
           (Inl (LibreOfficeConnectionException host port (connection_message host port)),
            s1, [Resolve (connection_url host port) (Inl NoConnectException)])"
    using res r
    by (simp add: CsvConverter_init_def Let_def bind_def try_except_def call_def raise_def)
  then have "main_try off env host port inp out slow keep ign s =
           (Inl (LibreOfficeConnectionException host port (connection_message host port)),
            s1, [Resolve (connection_url host port) (Inl NoConnectException)])"
    by (simp add: main_try_def bind_def)
  with init res show ?thesis by simp
qed

theorem connection_failure_is_typed_witness:
  "fst (resolve (scripted_office (Inl NoConnectException) [''Alpha''] (Inr ()) (\<lambda>k. Inr ()) (Inr ()))
          (connection_url ''localhost'' 2002) 0) = Inl NoConnectException
   \<and> connection_url ''localhost'' 2002 =
        ''uno:socket,host=localhost,port=2002;urp;StarOffice.ComponentContext''
   \<and> main_try (scripted_office (Inl NoConnectException) [''Alpha''] (Inr ()) (\<lambda>k. Inr ()) (Inr ()))
        plain_env ''localhost'' 2002 ''in/book.ods'' ''out'' False False False 0 =
      (Inl (LibreOfficeConnectionException ''localhost'' 2002
              (connection_message ''localhost'' 2002)),
       0, [Resolve (connection_url ''localhost'' 2002) (Inl NoConnectException)])"
proof -
  let ?off = "scripted_office (Inl NoConnectException) [''Alpha''] (Inr ()) (\<lambda>k. Inr ()) (Inr ())"
  have a: "fst (resolve ?off (connection_url ''localhost'' 2002) 0) = Inl NoConnectException"
    by (simp add: scripted_office_def)
  have b: "snd (resolve ?off (connection_url ''localhost'' 2002) 0) = 0"
    by (simp add: scripted_office_def)
  have c: "connection_url ''localhost'' 2002 =
        ''uno:socket,host=localhost,port=2002;urp;StarOffice.ComponentContext''"
    by code_simp
  show ?thesis
    using a b c
      connection_failure_is_typed [OF a, of plain_env "''in/book.ods''" "''out''" False False False]
    by simp
qed

subsection \<open>Refresh\<close>

text \<open>
  Claim C6. If the loaded document does not support refresh (the call raises
  \<^verbatim>\<open>AttributeError\<close>), \<^verbatim>\<open>convert\<close> goes on with the export block from the state the
  service is then in: its outcome is the outcome of the export block, and its events are
  the load, the refused refresh and the events of the export block.
\<close>

theorem refresh_unsupported_is_noop:
  assumes "loadComponentFromURL off (desktop self) (path_to_url env inp) ''_blank'' 0
             (dict_to_uno_properties (load_properties_for inp)) s = (Inr (Some d), s1)"
    and "refresh off d s1 = (Inl AttributeError, s2)"
  shows "convert off env self inp out slow keep ign s =
     (case export_then_close off env (Some d) out ''csv'' slow keep ign s2 of
        (r, s3, evs) \<Rightarrow>
          (r, s3,
           [LoadComponentFromURL (desktop self) (path_to_url env inp) ''_blank'' 0
              (dict_to_uno_properties (load_properties_for inp)) (Inr (Some d)),
            Refresh d (Inl AttributeError)] @ evs))"
  using refresh_step [OF assms(2), of "\<lambda>_. export_then_close off env (Some d) out ''csv'' slow keep ign"]
  by (simp add: convert_run [OF assms(1)] split: prod.splits)

theorem refresh_unsupported_is_noop_witness:
  "loadComponentFromURL
       (scripted_office (Inr (Context 0)) [''Alpha''] (Inl AttributeError) (\<lambda>k. Inr ()) (Inr ()))
       (desktop \<lparr>desktop = Desktop 0\<rparr>) (path_to_url plain_env ''in/book.ods'') ''_blank'' 0
       (dict_to_uno_properties (load_properties_for ''in/book.ods'')) 0 = (Inr (Some (Document 0)), 0)
   \<and> refresh
       (scripted_office (Inr (Context 0)) [''Alpha''] (Inl AttributeError) (\<lambda>k. Inr ()) (Inr ()))
       (Document 0) 0 = (Inl AttributeError, 0)
   \<and> outcome (convert
       (scripted_office (Inr (Context 0)) [''Alpha''] (Inl AttributeError) (\<lambda>k. Inr ()) (Inr ()))
       plain_env \<lparr>desktop = Desktop 0\<rparr> ''in/book.ods'' ''out'' False False False 0) = Inr ()
   \<and> convert
       (scripted_office (Inr (Context 0)) [''Alpha''] (Inl AttributeError) (\<lambda>k. Inr ()) (Inr ()))
       plain_env \<lparr>desktop = Desktop 0\<rparr> ''in/book.ods'' ''out'' False False False 0 =
     (case export_then_close
        (scripted_office (Inr (Context 0)) [''Alpha''] (Inl AttributeError) (\<lambda>k. Inr ()) (Inr ()))
        plain_env (Some (Document 0)) ''out'' ''csv'' False False False 0 of
        (r, s3, evs) \<Rightarrow>
          (r, s3,
           [LoadComponentFromURL (desktop \<lparr>desktop = Desktop 0\<rparr>)
              (path_to_url plain_env ''in/book.ods'') ''_blank'' 0
              (dict_to_uno_properties (load_properties_for ''in/book.ods'')) (Inr (Some (Document 0))),
            Refresh (Document 0) (Inl AttributeError)] @ evs))"
proof -
  let ?off = "scripted_office (Inr (Context 0)) [''Alpha''] (Inl AttributeError) (\<lambda>k. Inr ()) (Inr ())"
  have a: "loadComponentFromURL ?off (desktop \<lparr>desktop = Desktop 0\<rparr>)
       (path_to_url plain_env ''in/book.ods'') ''_blank'' 0
       (dict_to_uno_properties (load_properties_for ''in/book.ods'')) 0 = (Inr (Some (Document 0)), 0)"
    by (simp add: scripted_office_def)
  have b: "refresh ?off (Document 0) 0 = (Inl AttributeError, 0)"
    by (simp add: scripted_office_def)
  have c: "outcome (convert ?off plain_env \<lparr>desktop = Desktop 0\<rparr> ''in/book.ods'' ''out''
             False False False 0) = Inr ()"
    by code_simp
  from a b c refresh_unsupported_is_noop [OF a b, of "''out''" False False False]
  show ?thesis by blast
qed

subsection \<open>Closing the document\<close>

text \<open>
  Claim C5. With \<^verbatim>\<open>keep_open\<close> set, no run of \<^verbatim>\<open>convert\<close> performs a \<^verbatim>\<open>close\<close> call,
  whatever the service answers (success or failure at any step).
\<close>

theorem keep_open_never_closes:
  "close_calls (events (convert off env self inp out slow True ign s)) = []"
proof -
  have "emits (\<lambda>ev. close_call ev = []) (convert off env self inp out slow True ign)"
    by (intro emits_convert) simp_all
  then have "list_all (\<lambda>ev. close_call ev = [])
               (events (convert off env self inp out slow True ign s))"
    by (simp add: emits_def)
  then show ?thesis
    unfolding close_calls_def by (rule concat_map_Nil)
qed

theorem keep_open_never_closes_witness:
  "outcome (convert (healthy_office [''Alpha'', ''Beta'']) plain_env \<lparr>desktop = Desktop 0\<rparr>
       ''in/book.ods'' ''out'' False True False 0) = Inr ()
   \<and> close_calls (events (convert (healthy_office [''Alpha'', ''Beta'']) plain_env
       \<lparr>desktop = Desktop 0\<rparr> ''in/book.ods'' ''out'' False True False 0)) = []"
proof -
  have a: "outcome (convert (healthy_office [''Alpha'', ''Beta'']) plain_env \<lparr>desktop = Desktop 0\<rparr>
       ''in/book.ods'' ''out'' False True False 0) = Inr ()"
    by code_simp
  from a keep_open_never_closes [of "healthy_office [''Alpha'', ''Beta'']" plain_env
       "\<lparr>desktop = Desktop 0\<rparr>" "''in/book.ods''" "''out''" False False 0]
  show ?thesis by blast
qed

text \<open>
  Claim C1. With \<^verbatim>\<open>keep_open\<close> false, once the load has returned a document, the
  document is to be closed exactly once, with the force flag, before \<^verbatim>\<open>convert\<close>
  returns, on every exit path. The code does not do so when refresh raises anything but
  \<^verbatim>\<open>AttributeError\<close>: the call (line 151) precedes the \<^verbatim>\<open>try ... finally\<close> statement
  (line 155), so the exception leaves \<^verbatim>\<open>convert\<close> with the document loaded and no
  \<^verbatim>\<open>close\<close> call made. The first run below is such a run; the second is a sibling
  failure after the load, a store call that raises, where the document is closed.
\<close>

theorem close_skipped_when_refresh_raises:
  "convert (scripted_office (Inr (Context 0)) [''Alpha'']
              (Inl (UnoException ''DisposedException'')) (\<lambda>k. Inr ()) (Inr ()))
       plain_env \<lparr>desktop = Desktop 0\<rparr> ''book.ods'' ''out'' False False False 0 =
     (Inl (UnoException ''DisposedException''), 0,
      [LoadComponentFromURL (Desktop 0) ''file:///work/book.ods'' ''_blank'' 0 []
         (Inr (Some (Document 0))),
       Refresh (Document 0) (Inl (UnoException ''DisposedException''))])
   \<and> close_calls (events (convert (scripted_office (Inr (Context 0)) [''Alpha'']
              (Inl (UnoException ''DisposedException'')) (\<lambda>k. Inr ()) (Inr ()))
       plain_env \<lparr>desktop = Desktop 0\<rparr> ''book.ods'' ''out'' False False False 0)) = []
   \<and> outcome (convert failing_office plain_env \<lparr>desktop = Desktop 0\<rparr> ''book.ods'' ''out''
       False False False 0) = Inl (ErrorCodeIOException 283)
   \<and> close_calls (events (convert failing_office plain_env \<lparr>desktop = Desktop 0\<rparr>
       ''book.ods'' ''out'' False False False 0)) = [(Document 0, True)]"
  by code_simp

text \<open>
  On every path that completes the refresh step (refresh returned, or raised
  \<^verbatim>\<open>AttributeError\<close>) the code makes exactly one \<^verbatim>\<open>close\<close> call, on the loaded document
  with the force flag set, as the last thing \<^verbatim>\<open>convert\<close> does, whether the export block
  succeeded or raised anywhere.
\<close>

theorem closed_once_after_refresh:
  assumes "loadComponentFromURL off (desktop self) (path_to_url env inp) ''_blank'' 0
             (dict_to_uno_properties (load_properties_for inp)) s = (Inr (Some d), s1)"
    and "fst (refresh off d s1) = Inr () \<or> fst (refresh off d s1) = Inl AttributeError"
  shows "close_calls (events (convert off env self inp out slow False ign s)) = [(d, True)]
    \<and> close_call (last (events (convert off env self inp out slow False ign s))) = [(d, True)]"
proof -
  obtain rr s2 where rf: "refresh off d s1 = (rr, s2)"
    by (cases "refresh off d s1") auto
  with assms(2) have rr: "rr = Inr () \<or> rr = Inl AttributeError" by simp
  obtain r s3 evs where ex: "export_all off env (Some d) out ''csv'' slow ign s2 = (r, s3, evs)"
    by (cases "export_all off env (Some d) out ''csv'' slow ign s2") auto
  obtain rc s4 where cl: "close off d True s3 = (rc, s4)"
    by (cases "close off d True s3") auto
  have nc: "close_calls evs = []" using ex by (rule export_all_no_close)
  have "events (convert off env self inp out slow False ign s) =
          LoadComponentFromURL (desktop self) (path_to_url env inp) ''_blank'' 0
              (dict_to_uno_properties (load_properties_for inp)) (Inr (Some d))
          # Refresh d rr # evs @ [Close d True rc]"
    using refresh_step [OF rf rr, of "\<lambda>_. export_then_close off env (Some d) out ''csv'' slow False ign"]
    by (simp add: convert_run [OF assms(1)] export_then_close_run [OF ex cl])
  with nc show ?thesis by (simp add: close_calls_def)
qed

theorem closed_once_after_refresh_witness:
  "loadComponentFromURL
       (scripted_office (Inr (Context 0)) [''Alpha'', ''Beta''] (Inr ())
          (\<lambda>k. if k = 1 then Inl (ErrorCodeIOException 283) else Inr ()) (Inr ()))
       (desktop \<lparr>desktop = Desktop 0\<rparr>) (path_to_url plain_env ''in/book.ods'') ''_blank'' 0
       (dict_to_uno_properties (load_properties_for ''in/book.ods'')) 0 = (Inr (Some (Document 0)), 0)
   \<and> fst (refresh
       (scripted_office (Inr (Context 0)) [''Alpha'', ''Beta''] (Inr ())
          (\<lambda>k. if k = 1 then Inl (ErrorCodeIOException 283) else Inr ()) (Inr ()))
       (Document 0) 0) = Inr ()
   \<and> outcome (convert
       (scripted_office (Inr (Context 0)) [''Alpha'', ''Beta''] (Inr ())
          (\<lambda>k. if k = 1 then Inl (ErrorCodeIOException 283) else Inr ()) (Inr ()))
       plain_env \<lparr>desktop = Desktop 0\<rparr> ''in/book.ods'' ''out'' False False False 0)
       = Inl (ErrorCodeIOException 283)
   \<and> close_calls (events (convert
       (scripted_office (Inr (Context 0)) [''Alpha'', ''Beta''] (Inr ())
          (\<lambda>k. if k = 1 then Inl (ErrorCodeIOException 283) else Inr ()) (Inr ()))
       plain_env \<lparr>desktop = Desktop 0\<rparr> ''in/book.ods'' ''out'' False False False 0))
       = [(Document 0, True)]"
proof -
  let ?off = "scripted_office (Inr (Context 0)) [''Alpha'', ''Beta''] (Inr ())
          (\<lambda>k. if k = 1 then Inl (ErrorCodeIOException 283) else Inr ()) (Inr ())"
  have a: "loadComponentFromURL ?off (desktop \<lparr>desktop = Desktop 0\<rparr>)
       (path_to_url plain_env ''in/book.ods'') ''_blank'' 0
       (dict_to_uno_properties (load_properties_for ''in/book.ods'')) 0 = (Inr (Some (Document 0)), 0)"
    by (simp add: scripted_office_def)
  have b: "fst (refresh ?off (Document 0) 0) = Inr ()"
    by (simp add: scripted_office_def)
  have c: "outcome (convert ?off plain_env \<lparr>desktop = Desktop 0\<rparr> ''in/book.ods'' ''out''
             False False False 0) = Inl (ErrorCodeIOException 283)"
    by code_simp
  from a b c closed_once_after_refresh [OF a disjI1 [OF b], of "''out''" False False]
  show ?thesis by blast
qed

subsection \<open>The per-sheet export\<close>




text \<open>
  Claim C7, as stated, fails when the cleanup itself raises: here the second of three
  sheets fails to export with an I/O error, \<^verbatim>\<open>close\<close> then raises, and the exception
  that reaches the caller is the one from \<^verbatim>\<open>close\<close>, not the export error.
\<close>

theorem export_error_masked_by_close_failure:
  "convert vetoing_office plain_env \<lparr>desktop = Desktop 0\<rparr> ''book.ods'' ''out''
       False False True 0 =
     (Inl (UnoException ''CloseVetoException''), 2,
      [LoadComponentFromURL (Desktop 0) ''file:///work/book.ods'' ''_blank'' 0 []
         (Inr (Some (Document 0))),
       Refresh (Document 0) (Inr ()),
       GetSheets (Document 0) (Inr (Sheets 0)),
       GetCount (Sheets 0) (Inr 3),
       GetByIndex (Sheets 0) 0 (Inr (Sheet 0)),
       GetCurrentController (Document 0) (Inr (Controller 0)),
       SetActiveSheet (Controller 0) (Sheet 0) (Inr ()),
       StoreToURL (Document 0) ''file:///work/out/sheet-1.csv''
         [\<lparr>Name = ''FilterName'', Value = ''Text - txt - csv (StarCalc)''\<rparr>,
          \<lparr>Name = ''FilterOptions'', Value = ''44,34,0''\<rparr>] (Inr ()),
       GetByIndex (Sheets 0) 1 (Inr (Sheet 1)),
       GetCurrentController (Document 0) (Inr (Controller 0)),
       SetActiveSheet (Controller 0) (Sheet 1) (Inr ()),
       StoreToURL (Document 0) ''file:///work/out/sheet-2.csv''
         [\<lparr>Name = ''FilterName'', Value = ''Text - txt - csv (StarCalc)''\<rparr>,
          \<lparr>Name = ''FilterOptions'', Value = ''44,34,0''\<rparr>] (Inl (ErrorCodeIOException 283)),
       Close (Document 0) True (Inl (UnoException ''CloseVetoException''))])"
  by code_simp

text \<open>
  Claim C7, amended. If a store call of a run of \<^verbatim>\<open>convert\<close> raises \<open>e\<close>, then it is the
  last store call and the only one that raised (no retry); with \<open>k\<close> the number of store
  calls that returned, \<open>k\<close> is below the sheet count, exactly the sheets with indices 0 to
  \<open>k\<close> were fetched, the \<open>k\<close> files written are those of the sheets 0 to \<open>k - 1\<close>, and
  the failed call is that of sheet \<open>k\<close>; the cleanup makes one \<^verbatim>\<open>close\<close> call with the
  force flag (none with \<^verbatim>\<open>keep_open\<close>); \<^verbatim>\<open>convert\<close> fails, and it fails with \<open>e\<close>
  whenever no \<^verbatim>\<open>close\<close> call raised.
\<close>

theorem export_failure_aborts:
  assumes "convert off env self inp out slow keep ign s = (r, s', evs)"
    and "(u, p, Inl e) \<in> set (store_calls evs)"
  shows "\<exists>n. counts evs = [n] \<and> length (stored evs) < nat n
     \<and> visited evs = range_py (int (length (stored evs)) + 1)
     \<and> map fst (fetched evs) = visited evs
     \<and> map fst (named evs) = (if ign then [] else map snd (fetched evs))
     \<and> map fst (store_calls evs) =
          (if ign then map (\<lambda>i. output_url env out (''sheet-'' @ str_int (i + 1))) (visited evs)
           else map (\<lambda>(sh, nm). output_url env out nm) (named evs))
     \<and> store_calls evs =
          map (\<lambda>v. (v, dict_to_uno_properties CSV_EXPORT_FILTER, Inr ())) (stored evs)
            @ [(u, p, Inl e)]
     \<and> map snd (close_calls evs) = (if keep then [] else [True])
     \<and> (\<exists>e'. r = Inl e')
     \<and> (close_failures evs = [] \<longrightarrow> r = Inl e)"
proof -
  from assms(2) have ne: "r = Inr () \<or> store_calls evs \<noteq> []" by auto
  obtain d rr ss n s1 s2 rl evl post where
    lp: "for_loop (range_py n) (export_sheet off env (Some d) ss out ''csv'' CSV_EXPORT_FILTER slow ign) s1
       = (rl, s2, evl)"
    and evs: "evs = LoadComponentFromURL (desktop self) (path_to_url env inp) ''_blank'' 0
             (dict_to_uno_properties (load_properties_for inp)) (Inr (Some d))
           # Refresh d rr # GetSheets d (Inr ss) # GetCount ss (Inr n) # evl @ post"
    and pc: "(keep \<and> post = [] \<and> r = rl)
       \<or> (\<not> keep \<and> post = [Close d True (Inr ())] \<and> r = rl)
       \<or> (\<not> keep \<and> (\<exists>e'. post = [Close d True (Inl e')] \<and> r = Inl e'))"
    using convert_reaches_loop_ex [OF assms(1) ne] by blast
  have post: "post = [] \<or> (\<exists>rc. post = [Close d True rc])"
    using pc by auto
  have same: "visited evs = visited evl" "fetched evs = fetched evl" "named evs = named evl"
    "store_calls evs = store_calls evl" "stored evs = stored evl"
    "counts evs = n # counts evl"
    using post by (auto simp: evs obs_defs)
  have c0: "counts evl = []" "close_calls evl = []" "close_failures evl = []"
  proof -
    have "emits (\<lambda>ev. count_read ev = [] \<and> close_call ev = [] \<and> close_raised ev = [])
            (for_loop (range_py n) (export_sheet off env (Some d) ss out ''csv'' CSV_EXPORT_FILTER slow ign))"
      by (intro emits_for_loop emits_export_sheet) simp_all
    from emitsD [OF this lp] have a: "list_all (\<lambda>ev. count_read ev = [] \<and> close_call ev = []
        \<and> close_raised ev = []) evl" .
    then have "list_all (\<lambda>ev. count_read ev = []) evl" "list_all (\<lambda>ev. close_call ev = []) evl"
      "list_all (\<lambda>ev. close_raised ev = []) evl"
      by (simp_all add: list_all_iff)
    then show "counts evl = []" "close_calls evl = []" "close_failures evl = []"
      unfolding counts_def close_calls_def close_failures_def by (simp_all add: concat_map_Nil)
  qed
  from assms(2) same have "(u, p, Inl e) \<in> set (store_calls evl)" by simp
  note L0 = for_loop_store_failure [OF lp this, unfolded length_range_py]
  note L1 = L0 [THEN conjunct2]
  note L2 = L1 [THEN conjunct2]
  note L3 = L2 [THEN conjunct2]
  note L4 = L3 [THEN conjunct2]
  note L5 = L4 [THEN conjunct2]
  note L = L0 [THEN conjunct1] L1 [THEN conjunct1] L2 [THEN conjunct1] L3 [THEN conjunct1]
    L4 [THEN conjunct1] L5 [THEN conjunct1] L5 [THEN conjunct2]
  from \<open>(u, p, Inl e) \<in> set (store_calls evl)\<close> L(7)
  have p: "p = dict_to_uno_properties CSV_EXPORT_FILTER" by auto
  have vis: "visited evs = range_py (int (length (stored evs)) + 1)"
    using L(2,3) same by (simp add: take_range)
  have cc: "map snd (close_calls evs) = (if keep then [] else [True])"
    using pc c0 by (auto simp: evs obs_append obs_defs)
  have fail: "\<exists>e'. r = Inl e'"
    using pc L(1) by auto
  have propagates: "close_failures evs = [] \<longrightarrow> r = Inl e"
    using pc L(1) by (auto simp: evs obs_defs)
  from same c0 L p vis cc fail propagates show ?thesis by simp
qed

theorem export_failure_aborts_witness:
  "(output_url plain_env ''out'' ''Beta'', dict_to_uno_properties CSV_EXPORT_FILTER,
      Inl (ErrorCodeIOException 283))
     \<in> set (store_calls (events (convert failing_office plain_env \<lparr>desktop = Desktop 0\<rparr>
          ''in/book.ods'' ''out'' False False False 0)))
   \<and> close_failures (events (convert failing_office plain_env \<lparr>desktop = Desktop 0\<rparr>
          ''in/book.ods'' ''out'' False False False 0)) = []
   \<and> stored (events (convert failing_office plain_env \<lparr>desktop = Desktop 0\<rparr>
          ''in/book.ods'' ''out'' False False False 0)) = [output_url plain_env ''out'' ''Alpha'']
   \<and> visited (events (convert failing_office plain_env \<lparr>desktop = Desktop 0\<rparr>
          ''in/book.ods'' ''out'' False False False 0)) = range_py 2
   \<and> outcome (convert failing_office plain_env \<lparr>desktop = Desktop 0\<rparr>
          ''in/book.ods'' ''out'' False False False 0) = Inl (ErrorCodeIOException 283)"
proof -
  let ?run = "convert failing_office plain_env \<lparr>desktop = Desktop 0\<rparr>
          ''in/book.ods'' ''out'' False False False 0"
  have a: "(output_url plain_env ''out'' ''Beta'', dict_to_uno_properties CSV_EXPORT_FILTER,
      Inl (ErrorCodeIOException 283)) \<in> set (store_calls (events ?run))"
    by code_simp
  have b: "close_failures (events ?run) = []" by code_simp
  have c: "stored (events ?run) = [output_url plain_env ''out'' ''Alpha'']" by code_simp
  from export_failure_aborts [OF run_eq [of ?run] a] b c
  have "visited (events ?run) = range_py 2" "outcome ?run = Inl (ErrorCodeIOException 283)"
    by auto
  with a b c show ?thesis by blast
qed

subsection \<open>Slow mode\<close>

text \<open>
  Claim C8. With \<^verbatim>\<open>slow\<close> set, in every run of \<^verbatim>\<open>convert\<close> each fetch of a sheet is
  immediately preceded by a sleep of one second and each sleep is immediately followed by
  the fetch of a sheet (\<open>paced\<close>), so there is exactly one pause per sheet processed; a
  successful run on a document with \<open>n\<close> sheets makes exactly \<open>n\<close> pauses of one second.
  Without \<^verbatim>\<open>slow\<close> no run sleeps.
\<close>

theorem slow_pauses_before_each_sheet:
  assumes "convert off env self inp out slow keep ign s = (r, s', evs)"
  shows "(slow \<longrightarrow> paced False evs \<and> pauses evs = replicate (length (visited evs)) 1
            \<and> (r = Inr () \<longrightarrow> (\<exists>n. counts evs = [n] \<and> pauses evs = replicate (nat n) 1)))
       \<and> (\<not> slow \<longrightarrow> pauses evs = [])"
proof (cases slow)
  case True
  have pc: "paced False evs"
    using assms True
      well_pacedD [OF well_paced_convert, of off env self inp out keep ign s r s' evs]
    by simp
  have ps: "pauses evs = replicate (length (visited evs)) 1"
    using pc by (rule paced_pauses)
  have "r = Inr () \<longrightarrow> (\<exists>n. counts evs = [n] \<and> pauses evs = replicate (nat n) 1)"
  proof
    assume "r = Inr ()"
    with assms have "convert off env self inp out slow keep ign s = (Inr (), s', evs)" by simp
    from convert_success_run [OF this] True show "\<exists>n. counts evs = [n] \<and> pauses evs = replicate (nat n) 1"
      by auto
  qed
  with True pc ps show ?thesis by simp
next
  case False
  have "emits (\<lambda>ev. pause ev = []) (convert off env self inp out slow keep ign)"
    using False by (intro emits_convert) simp_all
  from emitsD [OF this assms] have "pauses evs = []"
    unfolding pauses_def by (rule concat_map_Nil)
  with False show ?thesis by simp
qed

theorem slow_pauses_before_each_sheet_witness:
  "outcome (convert (healthy_office [''Alpha'', ''Beta'']) plain_env \<lparr>desktop = Desktop 0\<rparr>
       ''in/book.ods'' ''out'' True False False 0) = Inr ()
   \<and> counts (events (convert (healthy_office [''Alpha'', ''Beta'']) plain_env \<lparr>desktop = Desktop 0\<rparr>
       ''in/book.ods'' ''out'' True False False 0)) = [2]
   \<and> paced False (events (convert (healthy_office [''Alpha'', ''Beta'']) plain_env \<lparr>desktop = Desktop 0\<rparr>
       ''in/book.ods'' ''out'' True False False 0))
   \<and> pauses (events (convert (healthy_office [''Alpha'', ''Beta'']) plain_env \<lparr>desktop = Desktop 0\<rparr>
       ''in/book.ods'' ''out'' True False False 0)) = [1, 1]
   \<and> pauses (events (convert (healthy_office [''Alpha'', ''Beta'']) plain_env \<lparr>desktop = Desktop 0\<rparr>
       ''in/book.ods'' ''out'' False False False 0)) = []"
proof -
  let ?slow = "convert (healthy_office [''Alpha'', ''Beta'']) plain_env \<lparr>desktop = Desktop 0\<rparr>
       ''in/book.ods'' ''out'' True False False 0"
  let ?fast = "convert (healthy_office [''Alpha'', ''Beta'']) plain_env \<lparr>desktop = Desktop 0\<rparr>
       ''in/book.ods'' ''out'' False False False 0"
  have a: "outcome ?slow = Inr ()" by code_simp
  have c: "counts (events ?slow) = [2]" by code_simp
  from slow_pauses_before_each_sheet [OF run_eq [of ?slow]] a c
  have s: "paced False (events ?slow)" "pauses (events ?slow) = [1, 1]"
    by (auto simp: numeral_2_eq_2)
  from slow_pauses_before_each_sheet [OF run_eq [of ?fast]]
  have f: "pauses (events ?fast) = []" by simp
  from a c s f show ?thesis by blast
qed

end
